theory Spec2Isabelle
  imports
    Main
    "HOL-Library.Sublist"
    "HOL-Library.AList"
    "HOL-Library.Char_ord"
    "HOL-Library.List_Lexorder"
begin

section \<open>Python values, errors and the outside world\<close>

text \<open>
  The records handled by \<^verbatim>\<open>dgitcore/datasets/files.py\<close> are Python dictionaries with
  string keys whose values are strings, booleans, \<^verbatim>\<open>None\<close>, lists and nested
  dictionaries. A dictionary is an association list in insertion order; storing under a
  key that is already there replaces the value in place, a new key goes to the end, as
  in Python, and each key occurs once. Python's \<^verbatim>\<open>==\<close> on two such values is the
  function \<^verbatim>\<open>py_eq\<close> below.
\<close>

datatype pyval =
    PNone
  | PBool bool
  | PInt int
  | PStr string
  | PList "pyval list"
  | PDict "(string \<times> pyval) list"

type_synonym pydict = "(string \<times> pyval) list"

datatype py_error =
    NameError string
  | KeyError string
  | TypeError
  | ValueError
  | AttributeError
  | OSError string
  | YAMLError

definition dict_get :: "pydict \<Rightarrow> string \<Rightarrow> pyval option" where
  "dict_get d k = map_of d k"

definition dict_set :: "pydict \<Rightarrow> string \<Rightarrow> pyval \<Rightarrow> pydict" where
  "dict_set d k v = AList.update k v d"

text \<open>\<^verbatim>\<open>d[k]\<close>: a missing key raises \<^verbatim>\<open>KeyError\<close>.\<close>

definition dict_item :: "pydict \<Rightarrow> string \<Rightarrow> py_error + pyval" where
  "dict_item d k = (case dict_get d k of None \<Rightarrow> Inl (KeyError k) | Some v \<Rightarrow> Inr v)"

text \<open>What the program writes to the console or hands to the operator.\<close>

datatype event =
    Print "pyval list"
  | Edit pyval
  | Input string

text \<open>What comes back from one editor round-trip once \<^verbatim>\<open>yaml.load\<close> has run on it.\<close>

datatype yaml_reply = YamlFails | YamlValue pyval

text \<open>
  The read-only surroundings of a call: the filesystem queries of \<^verbatim>\<open>os.path\<close>, the
  mimetype table, the platform metadata of the plugin manager, the checksum helper (\<^verbatim>\<open>compute_sha256\<close> lives in
  \<^verbatim>\<open>dgitcore/helper.py\<close> and is taken as a parameter), \<^verbatim>\<open>fnmatch.fnmatch\<close>, and the
  sequences of values that successive calls of \<^verbatim>\<open>uuid.uuid1()\<close> and
  \<^verbatim>\<open>datetime.now().isoformat()\<close> deliver.
\<close>

record env =
  os_getcwd :: string
  os_relpath :: "string \<Rightarrow> string \<Rightarrow> string"
  os_abspath :: "string \<Rightarrow> string"
  os_realpath :: "string \<Rightarrow> string"
  os_exists :: "string \<Rightarrow> bool"
  os_isfile :: "string \<Rightarrow> bool"
  os_environ_HOME :: "string option"
  guess_type :: "string \<Rightarrow> string option"
  compute_sha256 :: "string \<Rightarrow> py_error + string"
  fnmatch_fnmatch :: "string \<Rightarrow> string \<Rightarrow> bool"
  file_readlines :: "string \<Rightarrow> py_error + string list"
  file_read512 :: "string \<Rightarrow> py_error + string"
  uuid_uuid1 :: "nat \<Rightarrow> string"
  datetime_now :: "nat \<Rightarrow> string"
  platform_metadata :: pydict
  mkdtemp :: string
  subprocess_run :: "string list \<Rightarrow> py_error option"

text \<open>
  The mutable surroundings: the console, how often the uuid generator and the clock have
  been read, the replies the operator will give to the next editor round-trips, the
  parsed content of \<^verbatim>\<open>datapackage.json\<close> at the repository root (or the error that
  reading it raises) and the batches handed to the repository manager for copying.
\<close>

record world =
  console :: "event list"
  uuid_calls :: nat
  clock_calls :: nat
  editor_replies :: "yaml_reply list"
  manifest :: "py_error + pyval"
  stored :: "pydict list list"

definition emit :: "event \<Rightarrow> world \<Rightarrow> world" where
  "emit e w = w\<lparr>console := console w @ [e]\<rparr>"

definition str_uuid1 :: "env \<Rightarrow> world \<Rightarrow> string \<times> world" where
  "str_uuid1 E w = (uuid_uuid1 E (uuid_calls w), w\<lparr>uuid_calls := Suc (uuid_calls w)\<rparr>)"

definition now_isoformat :: "env \<Rightarrow> world \<Rightarrow> string \<times> world" where
  "now_isoformat E w = (datetime_now E (clock_calls w), w\<lparr>clock_calls := Suc (clock_calls w)\<rparr>)"

section \<open>\<^verbatim>\<open>os.path\<close> on POSIX\<close>

text \<open>
  \<^verbatim>\<open>posixpath.basename(p)\<close> is \<^verbatim>\<open>p[p.rfind('/') + 1:]\<close>: what follows the last slash.
\<close>

definition basename :: "string \<Rightarrow> string" where
  "basename p = rev (takeWhile (\<lambda>c. c \<noteq> CHR ''/'') (rev p))"

text \<open>
  \<^verbatim>\<open>posixpath.dirname(p)\<close>: the part up to and including the last slash, with trailing
  slashes removed unless it consists of slashes only.
\<close>

definition dirname :: "string \<Rightarrow> string" where
  "dirname p =
     (let head = rev (dropWhile (\<lambda>c. c \<noteq> CHR ''/'') (rev p))
      in if head \<noteq> [] \<and> \<not> (\<forall>c \<in> set head. c = CHR ''/'')
         then rev (dropWhile (\<lambda>c. c = CHR ''/'') (rev head))
         else head)"

text \<open>
  \<^verbatim>\<open>posixpath.join(a, b)\<close> with one component: an absolute \<^verbatim>\<open>b\<close> wins, an empty
  \<^verbatim>\<open>a\<close> or one ending in a slash is extended directly, otherwise a slash is put between.
\<close>

definition path_join :: "string \<Rightarrow> string \<Rightarrow> string" where
  "path_join a b =
     (if prefix ''/'' b then b
      else if a = [] \<or> suffix ''/'' a then a @ b
      else a @ ''/'' @ b)"

text \<open>
  \<^verbatim>\<open>posixpath.relpath(path, start)\<close> refuses the empty path before it computes anything;
  the computation itself depends on the working directory and is a query of the
  surroundings.
\<close>

definition relpath :: "env \<Rightarrow> string \<Rightarrow> string \<Rightarrow> py_error + string" where
  "relpath E p start = (if p = [] then Inl ValueError else Inr (os_relpath E p start))"

section \<open>Adding files and links\<close>

definition add_link :: "env \<Rightarrow> string \<Rightarrow> world \<Rightarrow> (string \<times> pydict) \<times> world" where
  "add_link E f w =
     (let (u, w1) = str_uuid1 E w;
          update = [
            (''type'', PStr ''data''),
            (''generator'', PBool False),
            (''uuid'', PStr u),
            (''relativepath'', PStr f),
            (''mimetypes'', PStr ''''),
            (''content'', PStr ''''),
            (''sha256'', PStr ''''),
            (''localfullpath'', PNone),
            (''localrelativepath'', PNone)]
      in ((f, update), w1))"

definition opt_str :: "string option \<Rightarrow> pyval" where
  "opt_str s = (case s of None \<Rightarrow> PNone | Some t \<Rightarrow> PStr t)"

definition add_file_normal ::
  "env \<Rightarrow> string \<Rightarrow> string \<Rightarrow> bool \<Rightarrow> bool \<Rightarrow> pyval \<Rightarrow> world
     \<Rightarrow> (py_error + string \<times> pydict) \<times> world" where
  "add_file_normal E f targetdir generator script source w =
     (let base = basename f;
          relativepath = (if targetdir \<noteq> ''.'' then path_join targetdir base else base)
      in case relpath E f (os_getcwd E) of
           Inl e \<Rightarrow> (Inl e, w)
         | Inr relp \<Rightarrow>
             (let filetype = (if script then (if generator then ''generator'' else ''script'')
                              else ''data'');
                  (u, w1) = str_uuid1 E w
              in case compute_sha256 E f of
                   Inl e \<Rightarrow> (Inl e, w1)
                 | Inr digest \<Rightarrow>
                     (Inr (base, [
                        (''type'', PStr filetype),
                        (''generator'', PBool generator),
                        (''uuid'', PStr u),
                        (''relativepath'', PStr relativepath),
                        (''mimetypes'', opt_str (guess_type E f)),
                        (''content'', PStr ''''),
                        (''source'', source),
                        (''sha256'', PStr digest),
                        (''localfullpath'', PStr f),
                        (''localrelativepath'', PStr relp)]), w1)))"

text \<open>
  The loop of \<^verbatim>\<open>add_files\<close>: \<^verbatim>\<open>seen\<close> and \<^verbatim>\<open>files\<close> are the two lists the source
  appends to, \<^verbatim>\<open>ts\<close> is the timestamp read before the loop.
\<close>

fun add_files_loop ::
  "env \<Rightarrow> string \<Rightarrow> bool \<Rightarrow> pyval \<Rightarrow> bool \<Rightarrow> string \<Rightarrow> string list
     \<Rightarrow> string list \<Rightarrow> pydict list \<Rightarrow> world \<Rightarrow> (py_error + pydict list) \<times> world" where
  "add_files_loop E targetdir generator source script ts [] seen files w = (Inr files, w)"
| "add_files_loop E targetdir generator source script ts (f # args) seen files w =
     (let w1 = emit (Print [PStr ''Looking at'', PStr f]) w;
          (r, w2) =
            (if \<not> sublist ''://'' f
             then add_file_normal E f targetdir generator script source w1
             else (let (p, w') = add_link E f (emit (Print [PStr ''Adding special file'']) w1)
                   in (Inr p, w')))
      in case r of
           Inl e \<Rightarrow> (Inl e, w2)
         | Inr (base, update) \<Rightarrow>
             (let (update1, seen1) =
                    (if base \<notin> set seen
                     then (dict_set update ''change'' (PStr ''add''), seen @ [base])
                     else (dict_set update ''change'' (PStr ''update''), seen))
              in add_files_loop E targetdir generator source script ts args seen1
                   (files @ [dict_set update1 ''ts'' (PStr ts)]) w2))"

definition add_files ::
  "env \<Rightarrow> string list \<Rightarrow> string \<Rightarrow> bool \<Rightarrow> pyval \<Rightarrow> bool \<Rightarrow> world
     \<Rightarrow> (py_error + pydict list) \<times> world" where
  "add_files E args targetdir generator source script w =
     (let (ts, w0) = now_isoformat E w
      in add_files_loop E targetdir generator source script ts args [] [] w0)"

section \<open>Reading the trace log\<close>

text \<open>
  \<^verbatim>\<open>str.strip()\<close> removes the leading and trailing characters for which \<^verbatim>\<open>isspace()\<close>
  holds: in ASCII the blank, tab, newline, vertical tab, form feed, carriage return and
  the four separators 0x1C to 0x1F.
\<close>

definition is_space :: "char \<Rightarrow> bool" where
  "is_space c \<longleftrightarrow>
     c \<in> set [CHR 0x20, CHR 0x09, CHR 0x0A, CHR 0x0B, CHR 0x0C, CHR 0x0D,
               CHR 0x1C, CHR 0x1D, CHR 0x1E, CHR 0x1F]"

definition strip :: "string \<Rightarrow> string" where
  "strip s = rev (dropWhile is_space (rev (dropWhile is_space s)))"

text \<open>
  The two patterns handed to \<^verbatim>\<open>re.search\<close> have the same shape: a literal, one opening
  quote from a class, the reluctant group \<^verbatim>\<open>(.+?)\<close> and one closing quote from a class.
  \<^verbatim>\<open>lazy_until\<close> is the reluctant group once it holds at least one character: it stops
  at the first closing quote, and a newline, which the dot does not match, ends the
  attempt. \<^verbatim>\<open>re_search\<close> tries the start positions from left to right.
\<close>

fun lazy_until :: "char list \<Rightarrow> string \<Rightarrow> string \<Rightarrow> string option" where
  "lazy_until closers acc [] = None"
| "lazy_until closers acc (c # cs) =
     (if c \<in> set closers then Some acc
      else if c = CHR 0x0A then None
      else lazy_until closers (acc @ [c]) cs)"

definition group1 :: "char list \<Rightarrow> string \<Rightarrow> string option" where
  "group1 closers s =
     (case s of
        [] \<Rightarrow> None
      | c # cs \<Rightarrow> if c = CHR 0x0A then None else lazy_until closers [c] cs)"

definition match_at :: "string \<Rightarrow> char list \<Rightarrow> char list \<Rightarrow> string \<Rightarrow> string option" where
  "match_at lit openers closers s =
     (if prefix lit s
      then (case drop (length lit) s of
              [] \<Rightarrow> None
            | q # r \<Rightarrow> if q \<in> set openers then group1 closers r else None)
      else None)"

fun re_search :: "string \<Rightarrow> char list \<Rightarrow> char list \<Rightarrow> string \<Rightarrow> string option" where
  "re_search lit openers closers [] = match_at lit openers closers []"
| "re_search lit openers closers (c # cs) =
     (case match_at lit openers closers (c # cs) of
        Some g \<Rightarrow> Some g
      | None \<Rightarrow> re_search lit openers closers cs)"

text \<open>
  The opened path of a line: first \<^verbatim>\<open>open\([b]["'](.+?)["']\<close>, and when that finds
  nothing \<^verbatim>\<open>open\("(.+?)"\<close>.
\<close>

definition matched_path :: "string \<Rightarrow> string option" where
  "matched_path l =
     (case re_search ''open(b'' [CHR 0x22, CHR 0x27] [CHR 0x22, CHR 0x27] l of
        Some g \<Rightarrow> Some g
      | None \<Rightarrow> re_search ''open('' [CHR 0x22] [CHR 0x22] l)"

text \<open>
  \<^verbatim>\<open>files\<close> maps each matched path to the list of actions seen for it. The body of
  \<^verbatim>\<open>for i in includes\<close> for one pattern is \<^verbatim>\<open>record_action\<close> under the
  \<^verbatim>\<open>fnmatch\<close> test.
\<close>

type_synonym trace_files = "(string \<times> string list) list"

definition record_action :: "trace_files \<Rightarrow> string \<Rightarrow> string \<Rightarrow> trace_files" where
  "record_action files matchedfile action =
     (case map_of files matchedfile of
        None \<Rightarrow> AList.update matchedfile [action] files
      | Some acts \<Rightarrow>
          if action \<notin> set acts then AList.update matchedfile (acts @ [action]) files
          else files)"

fun scan_includes :: "env \<Rightarrow> string \<Rightarrow> string \<Rightarrow> string list \<Rightarrow> trace_files \<Rightarrow> trace_files" where
  "scan_includes E matchedfile action [] files = files"
| "scan_includes E matchedfile action (i # includes) files =
     scan_includes E matchedfile action includes
       (if fnmatch_fnmatch E matchedfile i then record_action files matchedfile action
        else files)"

text \<open>The body of \<^verbatim>\<open>for l in lines\<close> for one line.\<close>

definition scan_line :: "env \<Rightarrow> string list \<Rightarrow> string \<Rightarrow> trace_files \<Rightarrow> py_error + trace_files" where
  "scan_line E includes l files =
     (case matched_path l of
        None \<Rightarrow> Inr files
      | Some matchedfile \<Rightarrow>
          if os_exists E matchedfile \<and> os_isfile E matchedfile
          then (let action = (if sublist ''O_RDONLY'' l then ''input'' else ''output'')
                in case relpath E matchedfile ''.'' of
                     Inl e \<Rightarrow> Inl e
                   | Inr rel \<Rightarrow> Inr (scan_includes E rel action includes files))
          else Inr files)"

fun scan_lines :: "env \<Rightarrow> string list \<Rightarrow> string list \<Rightarrow> trace_files \<Rightarrow> py_error + trace_files" where
  "scan_lines E includes [] files = Inr files"
| "scan_lines E includes (l # ls) files =
     (case scan_line E includes l files of
        Inl e \<Rightarrow> Inl e
      | Inr files1 \<Rightarrow> scan_lines E includes ls files1)"

definition open_lines :: "string list \<Rightarrow> string list" where
  "open_lines lines = map strip (filter (sublist ''open('') lines)"

section \<open>Operator curation and the run-output records\<close>

text \<open>
  One editor round-trip: the data is shown, and the next reply of the operator comes
  back. When the operator gives no further reply the call never returns, which is the
  value \<^verbatim>\<open>None\<close>.
\<close>

definition edit_roundtrip :: "pyval \<Rightarrow> world \<Rightarrow> yaml_reply option \<times> world" where
  "edit_roundtrip shown w =
     (case editor_replies w of
        [] \<Rightarrow> (None, emit (Edit shown) w)
      | r # rs \<Rightarrow> (Some r, emit (Edit shown) (w\<lparr>editor_replies := rs\<rparr>)))"

text \<open>\<^verbatim>\<open>len(selected)\<close> and \<^verbatim>\<open>f in selected\<close> on what \<^verbatim>\<open>yaml.load\<close> returned.\<close>

definition py_len :: "pyval \<Rightarrow> py_error + nat" where
  "py_len v =
     (case v of
        PList xs \<Rightarrow> Inr (length xs)
      | PStr t \<Rightarrow> Inr (length t)
      | PDict d \<Rightarrow> Inr (length (remdups (map fst d)))
      | _ \<Rightarrow> Inl TypeError)"

definition select_files :: "pyval \<Rightarrow> string list \<Rightarrow> py_error + string list" where
  "select_files selected filenames =
     (case selected of
        PList xs \<Rightarrow> Inr (filter (\<lambda>f. PStr f \<in> set xs) filenames)
      | PStr t \<Rightarrow> Inr (filter (\<lambda>f. sublist f t) filenames)
      | PDict d \<Rightarrow> Inr (filter (\<lambda>f. f \<in> set (map fst d)) filenames)
      | _ \<Rightarrow> if filenames = [] then Inr [] else Inl TypeError)"

fun initial_prefixes :: "string list \<Rightarrow> pydict \<Rightarrow> pydict" where
  "initial_prefixes [] prefs = prefs"
| "initial_prefixes (f # filenames) prefs =
     (let d = (if dirname f = [] then ''.'' else dirname f)
      in initial_prefixes filenames (dict_set prefs d (PStr d)))"

text \<open>
  The dictionary \<^verbatim>\<open>prefixes\<close> of the source is \<^verbatim>\<open>prefs\<close> here. The
  \<^verbatim>\<open>while True\<close> loop of the second round-trip, on the replies still to come. A
  reply that does not parse counts as the empty mapping; a reply without \<^verbatim>\<open>keys()\<close>
  raises.
\<close>

fun confirm_prefixes ::
  "pydict \<Rightarrow> yaml_reply list \<Rightarrow> world \<Rightarrow> (py_error + pydict) option \<times> world" where
  "confirm_prefixes prefs [] w =
     (None, emit (Edit (PDict prefs)) (w\<lparr>editor_replies := []\<rparr>))"
| "confirm_prefixes prefs (r # rs) w =
     (let w1 = emit (Edit (PDict prefs)) (w\<lparr>editor_replies := rs\<rparr>);
          revised = (case r of YamlFails \<Rightarrow> PDict [] | YamlValue v \<Rightarrow> v)
      in case revised of
           PDict d \<Rightarrow>
             if set (map fst d) = set (map fst prefs) then (Some (Inr d), w1)
             else confirm_prefixes prefs rs
                    (emit (Input ''Press ENTER to continue'')
                      (emit (Print [PStr ''Could not process edited file. Either some rows are missing or entry has YAML syntax errors'']) w1))
         | _ \<Rightarrow> (Some (Inl AttributeError), w1))"

fun build_records ::
  "env \<Rightarrow> trace_files \<Rightarrow> pydict \<Rightarrow> string \<Rightarrow> string list \<Rightarrow> pydict list \<Rightarrow> world
     \<Rightarrow> (py_error + pydict list) \<times> world" where
  "build_records E files prefs ts [] result w = (Inr result, w)"
| "build_records E files prefs ts (f # filenames) result w =
     (case dict_item prefs (dirname f) of
        Inl e \<Rightarrow> (Inl e, w)
      | Inr target \<Rightarrow>
     (case (if target = PStr ''.'' then Inr (basename f)
            else (case target of
                    PStr t \<Rightarrow> Inr (path_join t (basename f))
                  | _ \<Rightarrow> Inl TypeError)) of
        Inl e \<Rightarrow> (Inl e, w)
      | Inr relativepath \<Rightarrow>
     (case map_of files f of
        None \<Rightarrow> (Inl (KeyError f), w)
      | Some acts \<Rightarrow>
     (let (u, w1) = str_uuid1 E w
      in case file_read512 E f of
        Inl e \<Rightarrow> (Inl e, w1)
      | Inr content \<Rightarrow>
     (case compute_sha256 E f of
        Inl e \<Rightarrow> (Inl e, w1)
      | Inr digest \<Rightarrow>
     (case relpath E f ''.'' of
        Inl e \<Rightarrow> (Inl e, w1)
      | Inr localrel \<Rightarrow>
          build_records E files prefs ts filenames
            (result @ [[
               (''relativepath'', PStr relativepath),
               (''type'', PStr ''run-output''),
               (''actions'', PList (map PStr acts)),
               (''uuid'', PStr u),
               (''mimetypes'', opt_str (guess_type E f)),
               (''content'', PStr content),
               (''sha256'', PStr digest),
               (''ts'', PStr ts),
               (''localrelativepath'', PStr localrel),
               (''localfullpath'', PStr (os_abspath E f))]]) w1))))))"

text \<open>
  What \<^verbatim>\<open>extract_files\<close> does once the selection round-trip has returned
  \<^verbatim>\<open>selected\<close>.
\<close>

definition place_files ::
  "env \<Rightarrow> trace_files \<Rightarrow> string list \<Rightarrow> pyval \<Rightarrow> world
     \<Rightarrow> (py_error + pydict list) option \<times> world" where
  "place_files E files filenames selected w =
     (case py_len selected of
        Inl e \<Rightarrow> (Some (Inl e), w)
      | Inr n \<Rightarrow>
     (let w1 = emit (Print [PStr ''You selected'', PInt (int n), PStr ''file(s)'']) w
      in if n = 0 then (Some (Inr []), w1)
      else
     (case select_files selected filenames of
        Inl e \<Rightarrow> (Some (Inl e), w1)
      | Inr filenames1 \<Rightarrow>
     (let w2 = emit (Input ''(press ENTER)'')
                (emit (Print [PStr ''Please make sure you do not delete any rows or edit the keys.''])
                  (emit (Print [PStr ''Please select target locations for the various directories we found'']) w1));
          prefs = initial_prefixes filenames1 []
      in case confirm_prefixes prefs (editor_replies w2) w2 of
        (None, w3) \<Rightarrow> (None, w3)
      | (Some (Inl e), w3) \<Rightarrow> (Some (Inl e), w3)
      | (Some (Inr revised), w3) \<Rightarrow>
     (let prefs1 = (case dict_get revised ''.'' of
                         Some v \<Rightarrow> dict_set revised [] v
                       | None \<Rightarrow> revised);
          (ts, w4) = now_isoformat E w3
      in case build_records E files prefs1 ts filenames1 [] w4 of
        (Inl e, w5) \<Rightarrow> (Some (Inl e), w5)
      | (Inr result, w5) \<Rightarrow>
          (Some (Inr result), emit (Print [PList (map PDict result)]) w5))))))"

definition extract_files ::
  "env \<Rightarrow> string \<Rightarrow> string list \<Rightarrow> world \<Rightarrow> (py_error + pydict list) option \<times> world" where
  "extract_files E filename includes w =
     (case file_readlines E filename of
        Inl e \<Rightarrow> (Some (Inl e), w)
      | Inr lines \<Rightarrow>
     (case scan_lines E includes (open_lines lines) [] of
        Inl e \<Rightarrow> (Some (Inl e), w)
      | Inr files \<Rightarrow>
          if length files = 0
          then (Some (Inr []),
                emit (Print [PStr ''No input or output files found that match pattern'']) w)
          else
     (let w1 = emit (Print [PStr ''Please select files to keep (press ENTER)''])
                (emit (Print [PStr ''We captured files that matched the pattern you specified.'']) w);
          filenames = sort (map fst files)
      in case edit_roundtrip (PList (map PStr filenames)) w1 of
        (None, w2) \<Rightarrow> (None, w2)
      | (Some YamlFails, w2) \<Rightarrow> (Some (Inl YAMLError), w2)
      | (Some (YamlValue selected), w2) \<Rightarrow> place_files E files filenames selected w2)))"

section \<open>Finding the executable and running it under trace\<close>

text \<open>
  A repository carries its root directory and its manager, whose \<^verbatim>\<open>add_files\<close> copies
  the files of a batch into the repository or raises. An object bound to a name of the
  module is a module, a callable (a function or a class), or a repository manager with its \<^verbatim>\<open>permalink\<close>
  method, which answers with a pair.
\<close>

record manager =
  manager_add_files :: "pydict list \<Rightarrow> py_error option"

record repo =
  rootdir :: string
  manager :: manager

record repomanager =
  permalink :: "repo \<Rightarrow> string \<Rightarrow> pyval \<times> pyval"

datatype pyobj = Module | Callable | RepoManager repomanager

text \<open>
  The loop of \<^verbatim>\<open>find_executable_commitpath\<close>. Calling \<^verbatim>\<open>permalink\<close> on an object that
  has no such method raises \<^verbatim>\<open>AttributeError\<close>; reading \<^verbatim>\<open>os.environ['HOME']\<close> when
  the variable is not set raises \<^verbatim>\<open>KeyError\<close>.
\<close>

fun find_commitpath_loop ::
  "env \<Rightarrow> pyobj \<Rightarrow> repo \<Rightarrow> string list \<Rightarrow> py_error + pyval \<times> pyval" where
  "find_commitpath_loop E rm rp [] = Inr (PNone, PNone)"
| "find_commitpath_loop E rm rp (f # args) =
     (if os_exists E f
      then (let f1 = os_realpath E f
            in case rm of
                 RepoManager m \<Rightarrow>
                   (let (relp, plink) = permalink m rp f1
                    in if plink \<noteq> PNone then Inr (relp, plink)
                       else (case os_environ_HOME E of
                               None \<Rightarrow> Inl (KeyError ''HOME'')
                             | Some home \<Rightarrow>
                                 if sublist home f1 then Inr (PStr f1, PNone)
                                 else find_commitpath_loop E rm rp args))
               | _ \<Rightarrow> Inl AttributeError)
      else find_commitpath_loop E rm rp args)"

definition find_executable_commitpath ::
  "env \<Rightarrow> pyobj \<Rightarrow> repo \<Rightarrow> string list \<Rightarrow> world \<Rightarrow> (py_error + pyval \<times> pyval) \<times> world" where
  "find_executable_commitpath E rm rp args w =
     (find_commitpath_loop E rm rp args,
      emit (Print [PStr ''Finding executable commit path'', PList (map PStr args)]) w)"

text \<open>\<^verbatim>\<open>d.update(other)\<close> stores the entries of \<^verbatim>\<open>other\<close> one after the other.\<close>

definition dict_update :: "pydict \<Rightarrow> pydict \<Rightarrow> pydict" where
  "dict_update d other = foldl (\<lambda>acc (k, v). dict_set acc k v) d other"

text \<open>
  \<^verbatim>\<open>run_executable\<close>: the traced run of the command is a query of the surroundings
  that may raise; its trace is what \<^verbatim>\<open>file_readlines\<close> then finds in the log file.
\<close>

definition run_executable ::
  "env \<Rightarrow> pyobj \<Rightarrow> repo \<Rightarrow> string list \<Rightarrow> string list \<Rightarrow> world
     \<Rightarrow> (py_error + pydict list) option \<times> world" where
  "run_executable E rm rp args includes w =
     (let w1 = emit (Print [PStr ''Obtaining Commit Information'']) w;
          (r, w2) = find_executable_commitpath E rm rp args w1
      in case r of
           Inl e \<Rightarrow> (Some (Inl e), w2)
         | Inr (executable, commiturl) \<Rightarrow>
     (let tmpdir = mkdtemp E;
          w3 = emit (Print [PStr ''Running the command'']) w2;
          strace_filename = path_join tmpdir ''strace.out.txt'';
          cmd = [''strace.py'', ''-f'', ''-o'', strace_filename, ''-s'', ''1024'', ''-q'', ''--'']
                  @ args
      in case subprocess_run E cmd of
           Some e \<Rightarrow> (Some (Inl e), w3)
         | None \<Rightarrow>
     (case extract_files E strace_filename includes w3 of
        (None, w4) \<Rightarrow> (None, w4)
      | (Some (Inl e), w4) \<Rightarrow> (Some (Inl e), w4)
      | (Some (Inr files), w4) \<Rightarrow>
          (let execution_metadata =
                 dict_update [
                   (''likelyexecutable'', executable),
                   (''commitpath'', commiturl),
                   (''args'', PList (map PStr args))] (platform_metadata E)
           in (Some (Inr (map (\<lambda>h. dict_set h ''execution_metadata'' (PDict execution_metadata))
                            files)), w4)))))"

section \<open>The entry point \<^verbatim>\<open>add\<close> and the manifest\<close>

text \<open>
  The names bound at module level of \<^verbatim>\<open>files.py\<close>: the imported modules and names and
  the seven functions the module defines (the names every module has begin with two
  underscores and are left out). A name that is neither a parameter nor
  assigned in a function body is looked up here when the function runs, and a name that
  is not found (and is no builtin) raises \<^verbatim>\<open>NameError\<close>.
\<close>

definition module_namespace :: "(string \<times> pyobj) list" where
  "module_namespace = [
     (''os'', Module), (''sys'', Module), (''copy'', Module), (''fnmatch'', Module),
     (''re'', Module), (''shutil'', Module), (''yaml'', Module), (''json'', Module),
     (''tempfile'', Module), (''webbrowser'', Module), (''subprocess'', Module),
     (''string'', Module), (''random'', Module), (''pipes'', Module), (''getpass'', Module),
     (''datetime'', Callable), (''sha256'', Callable), (''mimetypes'', Module),
     (''platform'', Module), (''uuid'', Module), (''parser'', Module),
     (''get_config'', Callable), (''get_plugin_mgr'', Callable), (''bcolors'', Callable),
     (''clean_str'', Callable), (''cd'', Callable), (''compute_sha256'', Callable),
     (''run'', Callable), (''clean_name'', Callable), (''get_schema'', Callable),
     (''add_link'', Callable), (''add_file_normal'', Callable), (''add_files'', Callable),
     (''extract_files'', Callable), (''find_executable_commitpath'', Callable),
     (''run_executable'', Callable), (''add'', Callable)]"

definition load_global :: "string \<Rightarrow> py_error + pyobj" where
  "load_global n =
     (case map_of module_namespace n of None \<Rightarrow> Inl (NameError n) | Some v \<Rightarrow> Inr v)"

text \<open>\<^verbatim>\<open>v[k]\<close> for a string key: only a dictionary takes one.\<close>

definition py_item :: "pyval \<Rightarrow> string \<Rightarrow> py_error + pyval" where
  "py_item v k = (case v of PDict d \<Rightarrow> dict_item d k | _ \<Rightarrow> Inl TypeError)"

text \<open>
  Python's \<^verbatim>\<open>==\<close> on these values: \<^verbatim>\<open>None\<close> equals only itself, a boolean is the
  integer 0 or 1, strings are compared as strings, lists element by element, and two
  dictionaries are equal when they have the same number of keys and every key of the
  first has an equal value in the second, whatever the order. Values of different kinds
  are unequal. (A dictionary holds each of its keys once.)
\<close>

fun py_eq :: "pyval \<Rightarrow> pyval \<Rightarrow> bool" where
  "py_eq PNone b = (b = PNone)"
| "py_eq (PBool x) b =
     (case b of PBool y \<Rightarrow> x = y | PInt j \<Rightarrow> (if x then 1 else 0) = j | _ \<Rightarrow> False)"
| "py_eq (PInt i) b =
     (case b of PBool y \<Rightarrow> i = (if y then 1 else 0) | PInt j \<Rightarrow> i = j | _ \<Rightarrow> False)"
| "py_eq (PStr s) b = (b = PStr s)"
| "py_eq (PList xs) b =
     (case b of PList ys \<Rightarrow> list_all2 py_eq xs ys | _ \<Rightarrow> False)"
| "py_eq (PDict d) b =
     (case b of
        PDict e \<Rightarrow>
          length (remdups (map fst d)) = length (remdups (map fst e))
          \<and> list_all (\<lambda>(k, v). case map_of e k of None \<Rightarrow> False | Some v' \<Rightarrow> py_eq v v') d
      | _ \<Rightarrow> False)"

text \<open>
  The inner loop \<^verbatim>\<open>for i, r in enumerate(package['resources'])\<close>: the index of the first
  entry whose \<^verbatim>\<open>relativepath\<close> equals that of \<^verbatim>\<open>h\<close>, or none.
\<close>

fun find_slot :: "pydict \<Rightarrow> pyval list \<Rightarrow> nat \<Rightarrow> py_error + nat option" where
  "find_slot h [] i = Inr None"
| "find_slot h (r # rs) i =
     (case dict_item h ''relativepath'' of
        Inl e \<Rightarrow> Inl e
      | Inr hp \<Rightarrow>
          (case py_item r ''relativepath'' of
             Inl e \<Rightarrow> Inl e
           | Inr rp \<Rightarrow> if py_eq hp rp then Inr (Some i) else find_slot h rs (Suc i)))"

definition set_resources :: "pyval \<Rightarrow> pyval list \<Rightarrow> pyval" where
  "set_resources package rs =
     (case package of PDict d \<Rightarrow> PDict (dict_set d ''resources'' (PList rs)) | _ \<Rightarrow> package)"

text \<open>
  The body of \<^verbatim>\<open>for h in files\<close>. When \<^verbatim>\<open>package['resources']\<close> is not a list the body
  raises: iterating a string or a dictionary yields strings, which take no string key,
  and neither has \<^verbatim>\<open>append\<close>; the other values cannot be enumerated.
\<close>

definition merge_record :: "pydict \<Rightarrow> pyval \<Rightarrow> py_error + pyval" where
  "merge_record h package =
     (case py_item package ''resources'' of
        Inl e \<Rightarrow> Inl e
      | Inr res \<Rightarrow>
          (case res of
             PList rs \<Rightarrow>
               (case find_slot h rs 0 of
                  Inl e \<Rightarrow> Inl e
                | Inr (Some i) \<Rightarrow> Inr (set_resources package (rs[i := PDict h]))
                | Inr None \<Rightarrow> Inr (set_resources package (rs @ [PDict h])))
           | PStr t \<Rightarrow>
               if t = [] then Inl AttributeError
               else (case dict_item h ''relativepath'' of
                       Inl e \<Rightarrow> Inl e | Inr _ \<Rightarrow> Inl TypeError)
           | PDict d \<Rightarrow>
               if d = [] then Inl AttributeError
               else (case dict_item h ''relativepath'' of
                       Inl e \<Rightarrow> Inl e | Inr _ \<Rightarrow> Inl TypeError)
           | _ \<Rightarrow> Inl TypeError))"

fun merge_records :: "pydict list \<Rightarrow> pyval \<Rightarrow> py_error + pyval" where
  "merge_records [] package = Inr package"
| "merge_records (h # files) package =
     (case merge_record h package of
        Inl e \<Rightarrow> Inl e
      | Inr package1 \<Rightarrow> merge_records files package1)"

text \<open>
  \<^verbatim>\<open>add\<close>. In the branch for \<^verbatim>\<open>execute\<close> the arguments of the call of
  \<^verbatim>\<open>run_executable\<close> are evaluated first; \<^verbatim>\<open>repomanager\<close> is no parameter of \<^verbatim>\<open>add\<close>
  and is not assigned in it, so it is looked up among the names of the module. The
  manifest is written only after every record has been merged.
\<close>

definition add ::
  "env \<Rightarrow> repo \<Rightarrow> string list \<Rightarrow> bool \<Rightarrow> bool \<Rightarrow> string \<Rightarrow> string list \<Rightarrow> bool \<Rightarrow> pyval
     \<Rightarrow> world \<Rightarrow> (py_error + unit) option \<times> world" where
  "add E rp args execute generator targetdir includes script source w =
     (let (r, w1) =
            (if \<not> execute
             then (let (r0, w0) = add_files E args targetdir generator source script w
                   in (Some r0, w0))
             else (case load_global ''repomanager'' of
                     Inl e \<Rightarrow> (Some (Inl e), w)
                   | Inr rm \<Rightarrow> run_executable E rm rp args includes w))
      in case r of
           None \<Rightarrow> (None, w1)
         | Some (Inl e) \<Rightarrow> (Some (Inl e), w1)
         | Some (Inr files) \<Rightarrow>
             if length files > 0
             then (case manager_add_files (manager rp) files of
                     Some e \<Rightarrow> (Some (Inl e), w1)
                   | None \<Rightarrow>
                       (let w2 = w1\<lparr>stored := stored w1 @ [files]\<rparr>
                        in case manifest w2 of
                             Inl e \<Rightarrow> (Some (Inl e), w2)
                           | Inr package \<Rightarrow>
                               (case merge_records files package of
                                  Inl e \<Rightarrow> (Some (Inl e), w2)
                                | Inr package1 \<Rightarrow>
                                    (Some (Inr ()), w2\<lparr>manifest := Inr package1\<rparr>))))
             else (Some (Inr ()), w1))"

section \<open>The instrumentation base class\<close>

text \<open>
  \<^verbatim>\<open>InstrumentationBase.__init__(self, name, version, description, supported=[])\<close>
  sets four attributes and then calls the method \<^verbatim>\<open>initialize\<close>, which a subclass may
  override and which sees the object as built so far. An argument that is left out is
  \<^verbatim>\<open>None\<close> here and stands for the default \<^verbatim>\<open>[]\<close>; \<^verbatim>\<open>supported + [name]\<close> builds a new
  list, so that default is never changed.
\<close>

record instrumentation =
  name :: string
  version :: string
  description :: string
  support :: "string list"

definition initialize :: "instrumentation \<Rightarrow> instrumentation" where
  "initialize self = self"

definition InstrumentationBase_init ::
  "(instrumentation \<Rightarrow> instrumentation) \<Rightarrow> string \<Rightarrow> string \<Rightarrow> string \<Rightarrow> string list option
     \<Rightarrow> instrumentation" where
  "InstrumentationBase_init hook nm ver descr supported =
     hook \<lparr>name = nm, version = ver, description = descr,
           support = (case supported of None \<Rightarrow> [] | Some xs \<Rightarrow> xs) @ [nm]\<rparr>"

section \<open>Keys of a batch and sample surroundings\<close>

text \<open>
  The key under which \<^verbatim>\<open>add_files\<close> remembers a path: the path itself for a link, the
  basename for a file (lemmas \<^verbatim>\<open>add_link_key\<close> and \<^verbatim>\<open>add_file_normal_key\<close> show that
  these are the keys the two functions return).
\<close>

definition batch_key :: "string \<Rightarrow> string" where
  "batch_key f = (if sublist ''://'' f then f else basename f)"

text \<open>
  Concrete surroundings on which the theorems below are exercised: a working directory
  \<^verbatim>\<open>/home/u/work\<close>, a handful of existing files, the pattern \<^verbatim>\<open>*.csv\<close>, and a trace
  log in which \<^verbatim>\<open>/tmp/in.csv\<close> is opened for reading, then again for reading, then for
  writing.
\<close>

definition demo_files :: "string list" where
  "demo_files = [''/tmp/in.csv'', ''data/a.csv'', ''b.csv'', ''run.py'', ''/home/u/work/run.py'',
                 ''/usr/bin/python'']"

definition demo_log :: "string list" where
  "demo_log = [
     ''1 open('' @ [CHR 0x22] @ ''/tmp/in.csv'' @ [CHR 0x22] @ '', O_RDONLY) = 3'' @ [CHR 0x0A],
     ''1 close(3) = 0'' @ [CHR 0x0A],
     ''1 open(b'' @ [CHR 0x27] @ ''/tmp/in.csv'' @ [CHR 0x27] @ '', O_RDONLY|O_CLOEXEC) = 3''
       @ [CHR 0x0A],
     ''1 open('' @ [CHR 0x22] @ ''/tmp/in.csv'' @ [CHR 0x22] @ '', O_WRONLY|O_CREAT) = 4''
       @ [CHR 0x0A],
     ''1 open('' @ [CHR 0x22] @ ''/etc/missing.csv'' @ [CHR 0x22] @ '', O_RDONLY) = -1''
       @ [CHR 0x0A]]"

definition demo_env :: env where
  "demo_env = \<lparr>
     os_getcwd = ''/home/u/work'',
     os_relpath = (\<lambda>p start. if prefix ''/home/u/work/'' p then drop 13 p
                               else if prefix ''/'' p then ''../../..'' @ p else p),
     os_abspath = (\<lambda>p. if prefix ''/'' p then p
                        else if prefix ''../../..'' p then drop 8 p
                        else ''/home/u/work/'' @ p),
     os_realpath = (\<lambda>p. if prefix ''/'' p then p else ''/home/u/work/'' @ p),
     os_exists = (\<lambda>p. p \<in> set demo_files),
     os_isfile = (\<lambda>p. p \<in> set demo_files),
     os_environ_HOME = Some ''/home/u'',
     guess_type = (\<lambda>p. if suffix ''.csv'' p then Some ''text/csv'' else None),
     compute_sha256 = (\<lambda>p. if p = [] then Inl (OSError p) else Inr (''sha256:'' @ p)),
     fnmatch_fnmatch = (\<lambda>n pat. pat = ''*.csv'' \<and> suffix ''.csv'' n),
     file_readlines = (\<lambda>p. if p = ''/tmp/t/strace.out.txt'' then Inr demo_log
                            else Inl (OSError p)),
     file_read512 = (\<lambda>p. Inr ''x,y''),
     uuid_uuid1 = (\<lambda>n. ''uuid-'' @ replicate n (CHR ''i'')),
     datetime_now = (\<lambda>n. ''2016-01-01T00:00:00.'' @ replicate n (CHR ''0'')),
     platform_metadata = [(''system'', PStr ''Linux'')],
     mkdtemp = ''/tmp/t'',
     subprocess_run = (\<lambda>cmd. None)\<rparr>"

definition demo_world :: world where
  "demo_world = \<lparr>
     console = [],
     uuid_calls = 0,
     clock_calls = 0,
     editor_replies = [],
     manifest = Inr (PDict [(''title'', PStr ''demo''), (''resources'', PList [])]),
     stored = []\<rparr>"

text \<open>
  A repository whose manager copies without complaint, a repository manager that knows
  a permalink for \<^verbatim>\<open>run.py\<close>, one that knows none, and a manifest with two resources.
\<close>

definition demo_repo :: repo where
  "demo_repo = \<lparr>rootdir = ''/home/u/work'',
                 manager = \<lparr>manager_add_files = (\<lambda>files. None)\<rparr>\<rparr>"

definition demo_repomanager :: repomanager where
  "demo_repomanager = \<lparr>permalink = (\<lambda>rp p.
      if p = ''/home/u/work/run.py''
      then (PStr ''run.py'', PStr ''https://host/u/work/blob/0a1b/run.py'')
      else (PNone, PNone))\<rparr>"

definition demo_unlinked :: repomanager where
  "demo_unlinked = \<lparr>permalink = (\<lambda>rp p. (PNone, PNone))\<rparr>"



text \<open>
  What the claims say of the accumulated actions: for every path the list is free of
  duplicates, not empty, and holds only \<^verbatim>\<open>input\<close> and \<^verbatim>\<open>output\<close>.
\<close>

definition actions_ok :: "trace_files \<Rightarrow> bool" where
  "actions_ok files \<longleftrightarrow>
     (\<forall>k acts. map_of files k = Some acts \<longrightarrow>
        distinct acts \<and> acts \<noteq> [] \<and> set acts \<subseteq> {''input'', ''output''})"

section \<open>The spec_upsert of the specification and the table of actions\<close>






text \<open>
  For the scan of the trace log: the action a line stands for, when a line counts for the
  path \<^verbatim>\<open>k\<close> (its extracted path exists, is a regular file, is \<^verbatim>\<open>k\<close> relative to the
  current directory and matches a pattern), and the actions a table holds for a path.
\<close>

definition trace_action :: "string \<Rightarrow> string" where
  "trace_action l = (if sublist ''O_RDONLY'' l then ''input'' else ''output'')"

definition qualifies :: "env \<Rightarrow> string list \<Rightarrow> string \<Rightarrow> string \<Rightarrow> bool" where
  "qualifies E includes l k \<longleftrightarrow>
     (case matched_path l of
        None \<Rightarrow> False
      | Some m \<Rightarrow> os_exists E m \<and> os_isfile E m \<and> os_relpath E m ''.'' = k
                  \<and> (\<exists>i\<in>set includes. fnmatch_fnmatch E k i))"

definition acts_of :: "trace_files \<Rightarrow> string \<Rightarrow> string list" where
  "acts_of files k = (case map_of files k of None \<Rightarrow> [] | Some acts \<Rightarrow> acts)"




definition demo_curated_world :: world where
  "demo_curated_world =
     demo_world\<lparr>editor_replies := [
       YamlValue (PList [PStr ''../../../tmp/in.csv'']),
       YamlValue (PDict [(''../../../tmp'', PStr ''inputs'')])]\<rparr>"

definition demo_run_output :: pydict where
  "demo_run_output = [
     (''relativepath'', PStr ''inputs/in.csv''),
     (''type'', PStr ''run-output''),
     (''actions'', PList [PStr ''input'', PStr ''output'']),
     (''uuid'', PStr ''uuid-''),
     (''mimetypes'', PStr ''text/csv''),
     (''content'', PStr ''x,y''),
     (''sha256'', PStr ''sha256:../../../tmp/in.csv''),
     (''ts'', PStr ''2016-01-01T00:00:00.''),
     (''localrelativepath'', PStr ''../../../tmp/in.csv''),
     (''localfullpath'', PStr ''/tmp/in.csv'')]"

section \<open>Dictionaries and paths\<close>

lemma dict_get_set: "dict_get (dict_set d k v) k' = (if k' = k then Some v else dict_get d k')"
  by (simp add: dict_get_def dict_set_def update_conv')

lemma basename_no_slash: "CHR ''/'' \<notin> set (basename p)"
  by (auto simp: basename_def dest: set_takeWhileD)

lemma path_join_basename:
  "path_join t (basename f) = (if t = [] \<or> suffix ''/'' t then t @ basename f else t @ ''/'' @ basename f)"
proof -
  have "\<not> prefix ''/'' (basename f)"
    using basename_no_slash[of f] by (cases "basename f") auto
  then show ?thesis by (simp add: path_join_def)
qed

section \<open>Records of \<^verbatim>\<open>add_link\<close> and \<^verbatim>\<open>add_file_normal\<close>\<close>

lemma add_link_key: "add_link E f w = ((k, u), w') \<Longrightarrow> k = f"
  by (auto simp: add_link_def str_uuid1_def Let_def)

lemma add_file_normal_key: "add_file_normal E f td g sc src w = (Inr (k, u), w') \<Longrightarrow> k = basename f"
  by (auto simp: add_file_normal_def str_uuid1_def Let_def split: sum.splits)

text \<open>
  Claim C9. For every path, and so for every path containing \<^verbatim>\<open>://\<close>, \<^verbatim>\<open>add_link\<close>
  returns a pair whose key is the path itself and whose record has type \<^verbatim>\<open>data\<close>, the
  empty string as \<^verbatim>\<open>sha256\<close>, and \<^verbatim>\<open>None\<close>, the absent value, under both
  \<^verbatim>\<open>localfullpath\<close> and \<^verbatim>\<open>localrelativepath\<close>.
\<close>

theorem add_link_record:
  "fst (fst (add_link E f w)) = f
   \<and> dict_get (snd (fst (add_link E f w))) ''type'' = Some (PStr ''data'')
   \<and> dict_get (snd (fst (add_link E f w))) ''sha256'' = Some (PStr '''')
   \<and> dict_get (snd (fst (add_link E f w))) ''localfullpath'' = Some PNone
   \<and> dict_get (snd (fst (add_link E f w))) ''localrelativepath'' = Some PNone"
  by (simp add: add_link_def str_uuid1_def dict_get_def)

text \<open>
  Claim C7. Whenever \<^verbatim>\<open>add_file_normal\<close> produces a record, its type is \<^verbatim>\<open>script\<close>
  for a script that is no generator, \<^verbatim>\<open>generator\<close> for a script that is one, and
  \<^verbatim>\<open>data\<close> for everything that is no script, whatever the generator flag.
\<close>

theorem add_file_normal_type:
  assumes "add_file_normal E f targetdir generator script source w = (Inr (base, update), w')"
  shows "(script \<and> \<not> generator \<longrightarrow> dict_get update ''type'' = Some (PStr ''script''))
       \<and> (script \<and> generator \<longrightarrow> dict_get update ''type'' = Some (PStr ''generator''))
       \<and> (\<not> script \<longrightarrow> dict_get update ''type'' = Some (PStr ''data''))"
  using assms
  by (auto simp: add_file_normal_def str_uuid1_def Let_def dict_get_def split: sum.splits)

text \<open>The record of \<^verbatim>\<open>data/a.csv\<close> in the sample surroundings.\<close>

lemma demo_add_file_normal:
  "add_file_normal demo_env ''data/a.csv'' td g sc (PStr ''me'') demo_world =
     (Inr (''a.csv'', [
        (''type'', PStr (if sc then (if g then ''generator'' else ''script'') else ''data'')),
        (''generator'', PBool g),
        (''uuid'', PStr ''uuid-''),
        (''relativepath'', PStr (if td \<noteq> ''.'' then path_join td ''a.csv'' else ''a.csv'')),
        (''mimetypes'', PStr ''text/csv''),
        (''content'', PStr ''''),
        (''source'', PStr ''me''),
        (''sha256'', PStr ''sha256:data/a.csv''),
        (''localfullpath'', PStr ''data/a.csv''),
        (''localrelativepath'', PStr ''data/a.csv'')]),
      demo_world\<lparr>uuid_calls := 1\<rparr>)"
  by (simp add: add_file_normal_def relpath_def basename_def str_uuid1_def demo_env_def
      demo_world_def opt_str_def suffix_def Let_def)

text \<open>The three cases of C7 on \<^verbatim>\<open>data/a.csv\<close>.\<close>

theorem add_file_normal_type_witness:
  "dict_get (snd (projr (fst (add_file_normal demo_env ''data/a.csv'' ''.'' False True (PStr ''me'') demo_world)))) ''type'' = Some (PStr ''script'')
 \<and> dict_get (snd (projr (fst (add_file_normal demo_env ''data/a.csv'' ''.'' True True (PStr ''me'') demo_world)))) ''type'' = Some (PStr ''generator'')
 \<and> dict_get (snd (projr (fst (add_file_normal demo_env ''data/a.csv'' ''.'' True False (PStr ''me'') demo_world)))) ''type'' = Some (PStr ''data'')"
  using add_file_normal_type [OF demo_add_file_normal [of "''.''" False True]]
        add_file_normal_type [OF demo_add_file_normal [of "''.''" True True]]
        add_file_normal_type [OF demo_add_file_normal [of "''.''" True False]]
  by (simp add: demo_add_file_normal)

text \<open>
  Claim C8. Whenever \<^verbatim>\<open>add_file_normal\<close> produces a record, its \<^verbatim>\<open>relativepath\<close> is
  the bare basename of the path when the target directory is \<^verbatim>\<open>.\<close> and the target
  directory joined with the basename otherwise; for the target directory \<^verbatim>\<open>sub\<close> that
  is \<^verbatim>\<open>sub/\<close> followed by the basename.
\<close>

theorem add_file_normal_relativepath:
  assumes "add_file_normal E f targetdir generator script source w = (Inr (base, update), w')"
  shows "(targetdir = ''.'' \<longrightarrow> dict_get update ''relativepath'' = Some (PStr (basename f)))
       \<and> (targetdir \<noteq> ''.'' \<longrightarrow>
            dict_get update ''relativepath'' = Some (PStr (path_join targetdir (basename f))))
       \<and> (targetdir = ''sub'' \<longrightarrow>
            dict_get update ''relativepath'' = Some (PStr (''sub/'' @ basename f)))"
proof -
  have rp: "dict_get update ''relativepath'' =
      Some (PStr (if targetdir \<noteq> ''.'' then path_join targetdir (basename f) else basename f))"
    using assms
    by (auto simp: add_file_normal_def str_uuid1_def Let_def dict_get_def split: sum.splits)
  have "path_join ''sub'' (basename f) = ''sub/'' @ basename f"
    by (simp add: path_join_basename suffix_def)
  with rp show ?thesis by auto
qed

text \<open>Both target directories of C8 on \<^verbatim>\<open>data/a.csv\<close>.\<close>

theorem add_file_normal_relativepath_witness:
  "dict_get (snd (projr (fst (add_file_normal demo_env ''data/a.csv'' ''.'' False False (PStr ''me'') demo_world)))) ''relativepath'' = Some (PStr ''a.csv'')
 \<and> dict_get (snd (projr (fst (add_file_normal demo_env ''data/a.csv'' ''sub'' False False (PStr ''me'') demo_world)))) ''relativepath'' = Some (PStr ''sub/a.csv'')"
proof -
  have b: "basename ''data/a.csv'' = ''a.csv''" by (simp add: basename_def)
  show ?thesis
    using add_file_normal_relativepath [OF demo_add_file_normal [of "''.''" False False]]
          add_file_normal_relativepath [OF demo_add_file_normal [of "''sub''" False False]]
    by (simp add: demo_add_file_normal b path_join_def suffix_def)
qed

section \<open>The batch of \<^verbatim>\<open>add_files\<close>\<close>

lemma add_link_clock: "add_link E f w = (r, w') \<Longrightarrow> clock_calls w' = clock_calls w"
  by (auto simp: add_link_def str_uuid1_def Let_def)

lemma add_file_normal_clock:
  "add_file_normal E f td g sc src w = (r, w') \<Longrightarrow> clock_calls w' = clock_calls w"
  by (auto simp: add_file_normal_def str_uuid1_def Let_def split: sum.splits)

lemma emit_clock: "clock_calls (emit e w) = clock_calls w"
  by (simp add: emit_def)

text \<open>
  One round of the loop that goes on to a result: the path was dispatched on the
  \<^verbatim>\<open>://\<close> test, the key is \<^verbatim>\<open>batch_key\<close>, and the loop continues with the record
  stamped and the key remembered.
\<close>

lemma add_files_loop_Cons:
  assumes "add_files_loop E td g src sc ts (f # args) seen files w = (Inr out, w')"
  shows "\<exists>upd w1 w2.
     (if sublist ''://'' f then add_link E f w1 = ((batch_key f, upd), w2)
      else add_file_normal E f td g sc src w1 = (Inr (batch_key f, upd), w2))
   \<and> clock_calls w2 = clock_calls w
   \<and> add_files_loop E td g src sc ts args
        (if batch_key f \<in> set seen then seen else seen @ [batch_key f])
        (files @ [dict_set (dict_set upd ''change''
                    (PStr (if batch_key f \<in> set seen then ''update'' else ''add'')))
                    ''ts'' (PStr ts)]) w2 = (Inr out, w')"
proof (cases "sublist ''://'' f")
  case True
  let ?w1 = "emit (Print [PStr ''Adding special file'']) (emit (Print [PStr ''Looking at'', PStr f]) w)"
  obtain k upd w2 where al: "add_link E f ?w1 = ((k, upd), w2)"
    by (metis surj_pair)
  have k: "k = f" using al by (rule add_link_key)
  have bk: "batch_key f = f" using True by (simp add: batch_key_def)
  have c: "clock_calls w2 = clock_calls w"
    using add_link_clock[OF al] by (simp add: emit_clock)
  have rec: "add_files_loop E td g src sc ts args
        (if batch_key f \<in> set seen then seen else seen @ [batch_key f])
        (files @ [dict_set (dict_set upd ''change''
                    (PStr (if batch_key f \<in> set seen then ''update'' else ''add'')))
                    ''ts'' (PStr ts)]) w2 = (Inr out, w')"
    using assms True al k bk by (auto simp: Let_def split: if_splits)
  have "(if sublist ''://'' f then add_link E f ?w1 = ((batch_key f, upd), w2)
      else add_file_normal E f td g sc src ?w1 = (Inr (batch_key f, upd), w2))"
    using al True k bk by simp
  with c rec show ?thesis by blast
next
  case False
  let ?w1 = "emit (Print [PStr ''Looking at'', PStr f]) w"
  obtain r w2 where an: "add_file_normal E f td g sc src ?w1 = (r, w2)"
    by (metis surj_pair)
  have "\<exists>k upd. r = Inr (k, upd)"
  proof (cases r)
    case (Inl e)
    with assms False an show ?thesis by (simp add: Let_def)
  next
    case (Inr p)
    then show ?thesis by (cases p) simp
  qed
  then obtain k upd where r: "r = Inr (k, upd)" by blast
  have k: "k = basename f" using an r add_file_normal_key by blast
  have bk: "batch_key f = basename f" using False by (simp add: batch_key_def)
  have c: "clock_calls w2 = clock_calls w"
    using add_file_normal_clock[OF an] by (simp add: emit_clock)
  have rec: "add_files_loop E td g src sc ts args
        (if batch_key f \<in> set seen then seen else seen @ [batch_key f])
        (files @ [dict_set (dict_set upd ''change''
                    (PStr (if batch_key f \<in> set seen then ''update'' else ''add'')))
                    ''ts'' (PStr ts)]) w2 = (Inr out, w')"
    using assms False an r k bk by (auto simp: Let_def split: if_splits)
  have "(if sublist ''://'' f then add_link E f ?w1 = ((batch_key f, upd), w2)
      else add_file_normal E f td g sc src ?w1 = (Inr (batch_key f, upd), w2))"
    using an r False k bk by simp
  with c rec show ?thesis by blast
qed

text \<open>
  The invariant of the loop: every record it appends comes from the dispatch, is tagged
  \<^verbatim>\<open>update\<close> exactly when its key was seen before, and carries \<^verbatim>\<open>ts\<close>.
\<close>

lemma add_files_loop_spec:
  "add_files_loop E td g src sc ts args seen files w = (Inr out, w') \<Longrightarrow>
   \<exists>new. out = files @ new \<and> length new = length args \<and> clock_calls w' = clock_calls w \<and>
     (\<forall>i<length args. \<exists>w1 w2 upd.
        (if sublist ''://'' (args ! i) then add_link E (args ! i) w1 = ((batch_key (args ! i), upd), w2)
         else add_file_normal E (args ! i) td g sc src w1 = (Inr (batch_key (args ! i), upd), w2))
      \<and> new ! i = dict_set (dict_set upd ''change''
            (PStr (if batch_key (args ! i) \<in> set seen \<union> batch_key ` set (take i args)
                   then ''update'' else ''add''))) ''ts'' (PStr ts))"
proof (induction args arbitrary: seen files w)
  case Nil
  then show ?case by simp
next
  case (Cons f args)
  let ?seen1 = "if batch_key f \<in> set seen then seen else seen @ [batch_key f]"
  from add_files_loop_Cons[OF Cons.prems] obtain upd w1 w2 where
    d: "if sublist ''://'' f then add_link E f w1 = ((batch_key f, upd), w2)
        else add_file_normal E f td g sc src w1 = (Inr (batch_key f, upd), w2)"
    and c: "clock_calls w2 = clock_calls w"
    and rec: "add_files_loop E td g src sc ts args ?seen1
        (files @ [dict_set (dict_set upd ''change''
                    (PStr (if batch_key f \<in> set seen then ''update'' else ''add'')))
                    ''ts'' (PStr ts)]) w2 = (Inr out, w')"
    by blast
  let ?r = "dict_set (dict_set upd ''change''
                    (PStr (if batch_key f \<in> set seen then ''update'' else ''add'')))
                    ''ts'' (PStr ts)"
  from Cons.IH[OF rec] obtain new where
    o: "out = (files @ [?r]) @ new" and l: "length new = length args"
    and c': "clock_calls w' = clock_calls w2"
    and ih: "\<forall>i<length args. \<exists>w1 w2 upd.
        (if sublist ''://'' (args ! i) then add_link E (args ! i) w1 = ((batch_key (args ! i), upd), w2)
         else add_file_normal E (args ! i) td g sc src w1 = (Inr (batch_key (args ! i), upd), w2))
      \<and> new ! i = dict_set (dict_set upd ''change''
            (PStr (if batch_key (args ! i) \<in> set ?seen1 \<union> batch_key ` set (take i args)
                   then ''update'' else ''add''))) ''ts'' (PStr ts)"
    by blast
  have s1: "set ?seen1 = insert (batch_key f) (set seen)" by auto
  have each: "\<exists>w1 w2 upd.
        (if sublist ''://'' ((f # args) ! i) then add_link E ((f # args) ! i) w1 = ((batch_key ((f # args) ! i), upd), w2)
         else add_file_normal E ((f # args) ! i) td g sc src w1 = (Inr (batch_key ((f # args) ! i), upd), w2))
      \<and> (?r # new) ! i = dict_set (dict_set upd ''change''
            (PStr (if batch_key ((f # args) ! i) \<in> set seen \<union> batch_key ` set (take i (f # args))
                   then ''update'' else ''add''))) ''ts'' (PStr ts)"
    if "i < length (f # args)" for i
  proof (cases i)
    case 0
    show ?thesis
      unfolding 0
      apply (rule exI[of _ w1])
      apply (rule exI[of _ w2])
      apply (rule exI[of _ upd])
      using d by simp
  next
    case (Suc j)
    with that have j: "j < length args" by simp
    have nth: "(f # args) ! i = args ! j" "(?r # new) ! i = new ! j"
      using Suc by simp_all
    have eq: "(batch_key (args ! j) \<in> set ?seen1 \<union> batch_key ` set (take j args))
          = (batch_key (args ! j) \<in> set seen \<union> batch_key ` set (take i (f # args)))"
      unfolding s1 Suc by simp
    show ?thesis
      using ih[rule_format, OF j] unfolding nth eq .
  qed
  have "out = files @ (?r # new)" using o by simp
  moreover have "length (?r # new) = length (f # args)" using l by simp
  moreover have "clock_calls w' = clock_calls w" using c c' by simp
  ultimately show ?case using each by blast
qed

text \<open>
  Claim C3. When \<^verbatim>\<open>add_files\<close> returns its records, there is one per path, in order;
  each comes from \<^verbatim>\<open>add_link\<close> if the path contains \<^verbatim>\<open>://\<close> and from
  \<^verbatim>\<open>add_file_normal\<close> otherwise; its \<^verbatim>\<open>change\<close> is \<^verbatim>\<open>add\<close> if no earlier path
  of the batch has the same key and \<^verbatim>\<open>update\<close> if one has; and its \<^verbatim>\<open>ts\<close> is the one
  reading of the clock taken at the start, the only reading the call makes.
\<close>

theorem add_files_batch:
  assumes "add_files E args targetdir generator source script w = (Inr files, w')"
  shows "length files = length args
       \<and> clock_calls w' = Suc (clock_calls w)
       \<and> (\<forall>i<length args.
            dict_get (files ! i) ''ts'' = Some (PStr (datetime_now E (clock_calls w)))
          \<and> dict_get (files ! i) ''change'' =
              Some (PStr (if batch_key (args ! i) \<in> batch_key ` set (take i args)
                          then ''update'' else ''add''))
          \<and> (\<exists>w1 w2 update.
                (if sublist ''://'' (args ! i)
                 then add_link E (args ! i) w1 = ((batch_key (args ! i), update), w2)
                 else add_file_normal E (args ! i) targetdir generator script source w1
                        = (Inr (batch_key (args ! i), update), w2))
              \<and> files ! i = dict_set (dict_set update ''change''
                    (PStr (if batch_key (args ! i) \<in> batch_key ` set (take i args)
                           then ''update'' else ''add'')))
                    ''ts'' (PStr (datetime_now E (clock_calls w)))))"
proof -
  let ?ts = "datetime_now E (clock_calls w)"
  let ?w0 = "w\<lparr>clock_calls := Suc (clock_calls w)\<rparr>"
  have loop: "add_files_loop E targetdir generator source script ?ts args [] [] ?w0 = (Inr files, w')"
    using assms by (simp add: add_files_def now_isoformat_def)
  from add_files_loop_spec[OF loop] obtain new where
    o: "files = [] @ new" and l: "length new = length args"
    and c: "clock_calls w' = clock_calls ?w0"
    and each: "\<forall>i<length args. \<exists>w1 w2 upd.
        (if sublist ''://'' (args ! i) then add_link E (args ! i) w1 = ((batch_key (args ! i), upd), w2)
         else add_file_normal E (args ! i) targetdir generator script source w1 = (Inr (batch_key (args ! i), upd), w2))
      \<and> new ! i = dict_set (dict_set upd ''change''
            (PStr (if batch_key (args ! i) \<in> set [] \<union> batch_key ` set (take i args)
                   then ''update'' else ''add''))) ''ts'' (PStr ?ts)"
    by blast
  have fn: "files = new" using o by simp
  have per: "dict_get (files ! i) ''ts'' = Some (PStr ?ts)
          \<and> dict_get (files ! i) ''change'' =
              Some (PStr (if batch_key (args ! i) \<in> batch_key ` set (take i args)
                          then ''update'' else ''add''))
          \<and> (\<exists>w1 w2 update.
                (if sublist ''://'' (args ! i)
                 then add_link E (args ! i) w1 = ((batch_key (args ! i), update), w2)
                 else add_file_normal E (args ! i) targetdir generator script source w1
                        = (Inr (batch_key (args ! i), update), w2))
              \<and> files ! i = dict_set (dict_set update ''change''
                    (PStr (if batch_key (args ! i) \<in> batch_key ` set (take i args)
                           then ''update'' else ''add'')))
                    ''ts'' (PStr ?ts))" if "i < length args" for i
  proof -
    from each[rule_format, OF that] obtain w1 w2 upd where
      d: "if sublist ''://'' (args ! i) then add_link E (args ! i) w1 = ((batch_key (args ! i), upd), w2)
         else add_file_normal E (args ! i) targetdir generator script source w1 = (Inr (batch_key (args ! i), upd), w2)"
      and r: "files ! i = dict_set (dict_set upd ''change''
            (PStr (if batch_key (args ! i) \<in> batch_key ` set (take i args)
                   then ''update'' else ''add''))) ''ts'' (PStr ?ts)"
      unfolding fn by auto
    have "dict_get (files ! i) ''ts'' = Some (PStr ?ts)"
      unfolding r by (simp add: dict_get_set)
    moreover have "dict_get (files ! i) ''change'' =
              Some (PStr (if batch_key (args ! i) \<in> batch_key ` set (take i args)
                          then ''update'' else ''add''))"
      unfolding r by (simp add: dict_get_set)
    ultimately show ?thesis using d r by blast
  qed
  have "length files = length args" using fn l by simp
  moreover have "clock_calls w' = Suc (clock_calls w)" using c by simp
  ultimately show ?thesis using per by blast
qed

text \<open>A batch of two files with the same basename and a link runs to the end.\<close>

lemma demo_add_files:
  "\<exists>files w'. add_files demo_env [''data/a.csv'', ''b/a.csv'', ''https://x/a.csv''] ''.'' False (PStr ''me'') False
      demo_world = (Inr files, w')"
  by (simp add: add_files_def now_isoformat_def add_file_normal_def add_link_def relpath_def
      str_uuid1_def demo_env_def demo_world_def emit_def sublist_code Let_def)

text \<open>C3 on that batch: \<^verbatim>\<open>add\<close>, \<^verbatim>\<open>update\<close>, \<^verbatim>\<open>add\<close>, and one timestamp.\<close>

theorem add_files_batch_witness:
  "\<exists>files w'. add_files demo_env [''data/a.csv'', ''b/a.csv'', ''https://x/a.csv''] ''.'' False (PStr ''me'') False
      demo_world = (Inr files, w')
    \<and> length files = 3
    \<and> dict_get (files ! 0) ''change'' = Some (PStr ''add'')
    \<and> dict_get (files ! 1) ''change'' = Some (PStr ''update'')
    \<and> dict_get (files ! 2) ''change'' = Some (PStr ''add'')
    \<and> dict_get (files ! 0) ''ts'' = Some (PStr ''2016-01-01T00:00:00.'')
    \<and> dict_get (files ! 1) ''ts'' = Some (PStr ''2016-01-01T00:00:00.'')
    \<and> dict_get (files ! 2) ''ts'' = Some (PStr ''2016-01-01T00:00:00.'')"
proof -
  let ?args = "[''data/a.csv'', ''b/a.csv'', ''https://x/a.csv'']"
  from demo_add_files obtain files w' where
    r: "add_files demo_env ?args ''.'' False (PStr ''me'') False demo_world = (Inr files, w')"
    by blast
  have k: "batch_key ''data/a.csv'' = ''a.csv''" "batch_key ''b/a.csv'' = ''a.csv''"
    "batch_key ''https://x/a.csv'' = ''https://x/a.csv''"
    by (simp_all add: batch_key_def basename_def sublist_code)
  have t: "datetime_now demo_env (clock_calls demo_world) = ''2016-01-01T00:00:00.''"
    by (simp add: demo_env_def demo_world_def)
  note b = add_files_batch [OF r]
  have l: "length files = 3" using b by simp
  have "dict_get (files ! 0) ''change'' = Some (PStr ''add'')"
    and "dict_get (files ! 0) ''ts'' = Some (PStr ''2016-01-01T00:00:00.'')"
    using b[THEN conjunct2, THEN conjunct2, rule_format, of 0] by (simp_all add: k t)
  moreover have "dict_get (files ! 1) ''change'' = Some (PStr ''update'')"
    and "dict_get (files ! 1) ''ts'' = Some (PStr ''2016-01-01T00:00:00.'')"
    using b[THEN conjunct2, THEN conjunct2, rule_format, of 1] by (simp_all add: k t)
  moreover have "dict_get (files ! 2) ''change'' = Some (PStr ''add'')"
    and "dict_get (files ! 2) ''ts'' = Some (PStr ''2016-01-01T00:00:00.'')"
    using b[THEN conjunct2, THEN conjunct2, rule_format, of 2]
    by (simp_all add: k t numeral_2_eq_2)
  ultimately show ?thesis using r l by blast
qed

section \<open>The instrumentation provider\<close>

text \<open>
  Claim C10. Construction hands the object, with its four attributes set, to the
  \<^verbatim>\<open>initialize\<close> hook, and \<^verbatim>\<open>support\<close> holds the supplied aliases followed by the
  provider's own name. With the hook of the base class the alias set is the supplied
  aliases plus the name: \<^verbatim>\<open>{platform}\<close> for a provider named \<^verbatim>\<open>platform\<close> without
  extra aliases, \<^verbatim>\<open>{host, platform}\<close> with the extra alias \<^verbatim>\<open>host\<close>.
\<close>

theorem instrumentation_init_support:
  "InstrumentationBase_init hook nm ver descr supported =
     hook \<lparr>name = nm, version = ver, description = descr,
           support = (case supported of None \<Rightarrow> [] | Some xs \<Rightarrow> xs) @ [nm]\<rparr>
   \<and> set (support (InstrumentationBase_init initialize nm ver descr supported)) =
       (case supported of None \<Rightarrow> {} | Some xs \<Rightarrow> set xs) \<union> {nm}
   \<and> set (support (InstrumentationBase_init initialize ''platform'' ''1.0'' ''desc'' None)) =
       {''platform''}
   \<and> set (support (InstrumentationBase_init initialize ''platform'' ''1.0'' ''desc''
                      (Some [''host'']))) = {''host'', ''platform''}"
  by (auto simp: InstrumentationBase_init_def initialize_def split: option.splits)

section \<open>\<^verbatim>\<open>add\<close> in execute mode\<close>

text \<open>
  Claim C2. A call of \<^verbatim>\<open>add\<close> with \<^verbatim>\<open>execute\<close> set raises \<^verbatim>\<open>NameError\<close> for the
  name \<^verbatim>\<open>repomanager\<close> and leaves everything as it was: nothing is printed, no uuid
  is drawn (no record is produced), nothing is handed to the repository manager and
  the manifest is not touched.
\<close>

theorem add_execute_NameError:
  "add E rp args True generator targetdir includes script source w =
     (Some (Inl (NameError ''repomanager'')), w)
   \<and> manifest (snd (add E rp args True generator targetdir includes script source w)) = manifest w
   \<and> uuid_calls (snd (add E rp args True generator targetdir includes script source w)) = uuid_calls w
   \<and> stored (snd (add E rp args True generator targetdir includes script source w)) = stored w"
proof -
  have "load_global ''repomanager'' = Inl (NameError ''repomanager'')"
    by (simp add: load_global_def module_namespace_def)
  then have "add E rp args True generator targetdir includes script source w =
     (Some (Inl (NameError ''repomanager'')), w)"
    by (simp add: add_def)
  then show ?thesis by simp
qed

section \<open>The executable and its commit path\<close>

lemma find_commitpath_loop_skip:
  "\<forall>a\<in>set pre. \<not> os_exists E a \<Longrightarrow>
   find_commitpath_loop E rm rp (pre @ xs) = find_commitpath_loop E rm rp xs"
  by (induction pre) simp_all

lemma find_commitpath_loop_none:
  "\<forall>a\<in>set args. \<not> os_exists E a \<Longrightarrow> find_commitpath_loop E rm rp args = Inr (PNone, PNone)"
  using find_commitpath_loop_skip[of args E rm rp "[]"] by simp

text \<open>
  An existing argument for which the manager has no permalink and whose canonical path
  does not contain the home directory is passed over, and the scan goes on.
\<close>

lemma find_commitpath_loop_passes_over:
  assumes "os_exists E f" and "permalink m rp (os_realpath E f) = (relp, PNone)"
    and "os_environ_HOME E = Some home" and "\<not> sublist home (os_realpath E f)"
  shows "find_commitpath_loop E (RepoManager m) rp (f # args)
           = find_commitpath_loop E (RepoManager m) rp args"
  using assms by simp

text \<open>
  Claim C6. Let \<^verbatim>\<open>f\<close> be the first argument that names an existing path and let the
  repository manager answer \<^verbatim>\<open>(relp, plink)\<close> for its canonical form. If \<^verbatim>\<open>plink\<close>
  is a permalink the result is \<^verbatim>\<open>(relp, plink)\<close>. If it is \<^verbatim>\<open>None\<close> and the
  canonical path begins with the home directory, the result is that path and
  \<^verbatim>\<open>None\<close>. If no argument names an existing path the result is
  \<^verbatim>\<open>(None, None)\<close>.
\<close>

theorem find_executable_commitpath_result:
  "(args = pre @ f # rest \<and> (\<forall>a\<in>set pre. \<not> os_exists E a) \<and> os_exists E f
      \<and> permalink m rp (os_realpath E f) = (relp, plink) \<and> plink \<noteq> PNone
     \<longrightarrow> fst (find_executable_commitpath E (RepoManager m) rp args w) = Inr (relp, plink))
   \<and> (args = pre @ f # rest \<and> (\<forall>a\<in>set pre. \<not> os_exists E a) \<and> os_exists E f
      \<and> permalink m rp (os_realpath E f) = (relp, PNone)
      \<and> os_environ_HOME E = Some home \<and> prefix home (os_realpath E f)
     \<longrightarrow> fst (find_executable_commitpath E (RepoManager m) rp args w)
           = Inr (PStr (os_realpath E f), PNone))
   \<and> ((\<forall>a\<in>set args. \<not> os_exists E a)
     \<longrightarrow> fst (find_executable_commitpath E rm rp args w) = Inr (PNone, PNone))"
proof (intro conjI impI)
  assume a: "args = pre @ f # rest \<and> (\<forall>a\<in>set pre. \<not> os_exists E a) \<and> os_exists E f
      \<and> permalink m rp (os_realpath E f) = (relp, plink) \<and> plink \<noteq> PNone"
  then have "find_commitpath_loop E (RepoManager m) rp args
      = find_commitpath_loop E (RepoManager m) rp (f # rest)"
    by (simp add: find_commitpath_loop_skip)
  with a show "fst (find_executable_commitpath E (RepoManager m) rp args w) = Inr (relp, plink)"
    by (simp add: find_executable_commitpath_def)
next
  assume a: "args = pre @ f # rest \<and> (\<forall>a\<in>set pre. \<not> os_exists E a) \<and> os_exists E f
      \<and> permalink m rp (os_realpath E f) = (relp, PNone)
      \<and> os_environ_HOME E = Some home \<and> prefix home (os_realpath E f)"
  then have "find_commitpath_loop E (RepoManager m) rp args
      = find_commitpath_loop E (RepoManager m) rp (f # rest)"
    by (simp add: find_commitpath_loop_skip)
  moreover have "sublist home (os_realpath E f)"
    using a by (simp add: prefix_imp_sublist)
  ultimately show "fst (find_executable_commitpath E (RepoManager m) rp args w)
           = Inr (PStr (os_realpath E f), PNone)"
    using a by (simp add: find_executable_commitpath_def)
next
  assume "\<forall>a\<in>set args. \<not> os_exists E a"
  then show "fst (find_executable_commitpath E rm rp args w) = Inr (PNone, PNone)"
    by (simp add: find_executable_commitpath_def find_commitpath_loop_none)
qed

text \<open>The three cases of C6 in the sample surroundings.\<close>

theorem find_executable_commitpath_result_witness:
  "fst (find_executable_commitpath demo_env (RepoManager demo_repomanager) demo_repo
          [''nowhere'', ''run.py'', ''b.csv''] demo_world)
     = Inr (PStr ''run.py'', PStr ''https://host/u/work/blob/0a1b/run.py'')
   \<and> fst (find_executable_commitpath demo_env (RepoManager demo_unlinked) demo_repo
          [''nowhere'', ''run.py'', ''b.csv''] demo_world)
     = Inr (PStr ''/home/u/work/run.py'', PNone)
   \<and> fst (find_executable_commitpath demo_env (RepoManager demo_unlinked) demo_repo
          [''nowhere'', ''elsewhere''] demo_world)
     = Inr (PNone, PNone)"
proof -
  have ex: "\<forall>a\<in>set [''nowhere'']. \<not> os_exists demo_env a" "os_exists demo_env ''run.py''"
    "\<forall>a\<in>set [''nowhere'', ''elsewhere'']. \<not> os_exists demo_env a"
    by (simp_all add: demo_env_def demo_files_def)
  have rp: "os_realpath demo_env ''run.py'' = ''/home/u/work/run.py''"
    "os_environ_HOME demo_env = Some ''/home/u''"
    by (simp_all add: demo_env_def)
  have pl: "permalink demo_repomanager demo_repo ''/home/u/work/run.py''
              = (PStr ''run.py'', PStr ''https://host/u/work/blob/0a1b/run.py'')"
    "permalink demo_unlinked demo_repo ''/home/u/work/run.py'' = (PNone, PNone)"
    by (simp_all add: demo_repomanager_def demo_unlinked_def)
  have 1: "fst (find_executable_commitpath demo_env (RepoManager demo_repomanager) demo_repo
          [''nowhere'', ''run.py'', ''b.csv''] demo_world)
     = Inr (PStr ''run.py'', PStr ''https://host/u/work/blob/0a1b/run.py'')"
    using find_executable_commitpath_result
      [where args = "[''nowhere'', ''run.py'', ''b.csv'']" and pre = "[''nowhere'']"
         and f = "''run.py''" and rest = "[''b.csv'']" and E = demo_env
         and m = demo_repomanager and rp = demo_repo and relp = "PStr ''run.py''"
         and plink = "PStr ''https://host/u/work/blob/0a1b/run.py''" and w = demo_world]
      ex rp pl by simp
  have 2: "fst (find_executable_commitpath demo_env (RepoManager demo_unlinked) demo_repo
          [''nowhere'', ''run.py'', ''b.csv''] demo_world)
     = Inr (PStr ''/home/u/work/run.py'', PNone)"
    using find_executable_commitpath_result
      [where args = "[''nowhere'', ''run.py'', ''b.csv'']" and pre = "[''nowhere'']"
         and f = "''run.py''" and rest = "[''b.csv'']" and E = demo_env
         and m = demo_unlinked and rp = demo_repo and relp = PNone
         and home = "''/home/u''" and w = demo_world]
      ex rp pl by simp
  have 3: "fst (find_executable_commitpath demo_env (RepoManager demo_unlinked) demo_repo
          [''nowhere'', ''elsewhere''] demo_world)
     = Inr (PNone, PNone)"
    using find_executable_commitpath_result
      [where args = "[''nowhere'', ''elsewhere'']" and E = demo_env
         and rm = "RepoManager demo_unlinked" and rp = demo_repo and w = demo_world]
      ex by simp
  from 1 2 3 show ?thesis by simp
qed

section \<open>Merging records into the manifest\<close>
























section \<open>The trace log\<close>

text \<open>A path found by either pattern has at least one character.\<close>

lemma lazy_until_prefix: "lazy_until cl acc s = Some g \<Longrightarrow> prefix acc g"
proof (induction s arbitrary: acc)
  case Nil
  then show ?case by simp
next
  case (Cons c cs)
  show ?case
  proof (cases "c \<in> set cl")
    case True
    with Cons.prems show ?thesis by simp
  next
    case False
    with Cons.prems have "lazy_until cl (acc @ [c]) cs = Some g"
      by (simp split: if_splits)
    from Cons.IH[OF this] show ?thesis by (rule append_prefixD)
  qed
qed

lemma group1_nonempty: "group1 cl s = Some g \<Longrightarrow> g \<noteq> []"
  by (cases s) (auto simp: group1_def split: if_splits dest: lazy_until_prefix)

lemma match_at_nonempty: "match_at lit ops cl s = Some g \<Longrightarrow> g \<noteq> []"
  by (auto simp: match_at_def split: if_splits list.splits dest: group1_nonempty)

lemma re_search_nonempty: "re_search lit ops cl s = Some g \<Longrightarrow> g \<noteq> []"
  by (induction s) (auto split: option.splits dest: match_at_nonempty)

lemma matched_path_nonempty: "matched_path l = Some m \<Longrightarrow> m \<noteq> []"
  by (auto simp: matched_path_def split: option.splits dest: re_search_nonempty)

text \<open>Lines whose path fails one of the filters leave \<^verbatim>\<open>files\<close> as it is.\<close>

lemma scan_includes_no_match:
  "\<forall>i\<in>set includes. \<not> fnmatch_fnmatch E mf i \<Longrightarrow> scan_includes E mf a includes files = files"
  by (induction "includes" arbitrary: files) simp_all

lemma scan_lines_no_match:
  assumes "\<forall>l\<in>set ls. \<forall>m. matched_path l = Some m \<and> os_exists E m \<and> os_isfile E m
             \<longrightarrow> (\<forall>i\<in>set includes. \<not> fnmatch_fnmatch E (os_relpath E m ''.'') i)"
  shows "scan_lines E includes ls files = Inr files"
  using assms
proof (induction ls)
  case Nil
  then show ?case by simp
next
  case (Cons l ls)
  have "scan_line E includes l files = Inr files"
  proof (cases "matched_path l")
    case None
    then show ?thesis by (simp add: scan_line_def)
  next
    case (Some m)
    show ?thesis
    proof (cases "os_exists E m \<and> os_isfile E m")
      case False
      with Some show ?thesis by (auto simp: scan_line_def)
    next
      case True
      with Cons.prems Some
      have "\<forall>i\<in>set includes. \<not> fnmatch_fnmatch E (os_relpath E m ''.'') i" by simp
      then have "scan_includes E (os_relpath E m ''.'') a includes files = files" for a
        by (rule scan_includes_no_match)
      with Some True matched_path_nonempty[OF Some] show ?thesis
        by (simp add: scan_line_def relpath_def)
    qed
  qed
  moreover have "scan_lines E includes ls files = Inr files"
    using Cons by simp
  ultimately show ?case by simp
qed

text \<open>
  Claim C5. When the log can be read and no line that refers to an open has a path that
  exists, is a regular file and matches one of the patterns, \<^verbatim>\<open>extract_files\<close> prints
  the notice and returns the empty list: it returns, it raises nothing, the editor is
  never opened, the operator is never prompted, and no reply of the operator is used.
\<close>

theorem extract_files_no_match:
  assumes "file_readlines E filename = Inr lines"
    and "\<forall>l\<in>set lines. sublist ''open('' l \<longrightarrow>
           (\<forall>m. matched_path (strip l) = Some m \<and> os_exists E m \<and> os_isfile E m
             \<longrightarrow> (\<forall>i\<in>set includes. \<not> fnmatch_fnmatch E (os_relpath E m ''.'') i))"
  shows "extract_files E filename includes w =
           (Some (Inr []),
            emit (Print [PStr ''No input or output files found that match pattern'']) w)"
proof -
  have "\<forall>l\<in>set (open_lines lines). \<forall>m. matched_path l = Some m \<and> os_exists E m \<and> os_isfile E m
             \<longrightarrow> (\<forall>i\<in>set includes. \<not> fnmatch_fnmatch E (os_relpath E m ''.'') i)"
    using assms(2) by (auto simp: open_lines_def)
  then have "scan_lines E includes (open_lines lines) [] = Inr []"
    by (rule scan_lines_no_match)
  with assms(1) show ?thesis by (simp add: extract_files_def)
qed

text \<open>The paths that the two patterns find in the lines of the sample log.\<close>

lemma demo_matched:
  "matched_path (strip (demo_log ! 0)) = Some ''/tmp/in.csv''"
  "matched_path (strip (demo_log ! 1)) = None"
  "matched_path (strip (demo_log ! 2)) = Some ''/tmp/in.csv''"
  "matched_path (strip (demo_log ! 3)) = Some ''/tmp/in.csv''"
  "matched_path (strip (demo_log ! 4)) = Some ''/etc/missing.csv''"
  by (simp_all add: demo_log_def strip_def is_space_def matched_path_def match_at_def group1_def)

text \<open>
  Recording an action: the list of the path gains the action unless it holds it
  already, and the lists of the other paths stay.
\<close>

lemma map_of_record_action_same:
  "map_of (record_action files mf a) mf =
     Some (case map_of files mf of None \<Rightarrow> [a]
           | Some acts \<Rightarrow> if a \<in> set acts then acts else acts @ [a])"
  by (simp add: record_action_def update_conv' split: option.splits)

lemma map_of_record_action_other:
  "k \<noteq> mf \<Longrightarrow> map_of (record_action files mf a) k = map_of files k"
  by (simp add: record_action_def update_conv' split: option.splits)

lemma record_action_known:
  "map_of files mf = Some acts \<Longrightarrow> a \<in> set acts \<Longrightarrow> record_action files mf a = files"
  by (simp add: record_action_def)

lemma record_action_twice:
  "record_action (record_action files mf a) mf a = record_action files mf a"
proof -
  obtain acts where "map_of (record_action files mf a) mf = Some acts" "a \<in> set acts"
    using map_of_record_action_same[of files mf a] by (auto split: option.splits if_splits)
  then show ?thesis by (rule record_action_known)
qed

lemma scan_includes_recorded:
  "scan_includes E mf a includes (record_action files mf a) = record_action files mf a"
  by (induction "includes") (simp_all add: record_action_twice)

lemma scan_includes_match:
  "\<exists>i\<in>set includes. fnmatch_fnmatch E mf i \<Longrightarrow>
   scan_includes E mf a includes files = record_action files mf a"
  by (induction "includes") (auto simp: scan_includes_recorded)

text \<open>The lists stay free of duplicates through the whole scan.\<close>

lemma record_action_ok:
  assumes "actions_ok files" and "a = ''input'' \<or> a = ''output''"
  shows "actions_ok (record_action files mf a)"
  unfolding actions_ok_def
proof (intro allI impI)
  fix k acts assume m: "map_of (record_action files mf a) k = Some acts"
  show "distinct acts \<and> acts \<noteq> [] \<and> set acts \<subseteq> {''input'', ''output''}"
  proof (cases "k = mf")
    case False
    with m have "map_of files k = Some acts" by (simp add: map_of_record_action_other)
    with assms(1) show ?thesis unfolding actions_ok_def by blast
  next
    case True
    show ?thesis
    proof (cases "map_of files mf")
      case None
      with m True have "acts = [a]" by (simp add: map_of_record_action_same)
      with assms(2) show ?thesis by auto
    next
      case (Some old)
      with assms(1) have o: "distinct old \<and> old \<noteq> [] \<and> set old \<subseteq> {''input'', ''output''}"
        unfolding actions_ok_def by blast
      from m True Some have "acts = (if a \<in> set old then old else old @ [a])"
        by (simp add: map_of_record_action_same)
      with o assms(2) show ?thesis by auto
    qed
  qed
qed

lemma scan_includes_ok:
  "actions_ok files \<Longrightarrow> a = ''input'' \<or> a = ''output'' \<Longrightarrow>
   actions_ok (scan_includes E mf a includes files)"
  by (induction "includes" arbitrary: files) (simp_all add: record_action_ok)

lemma scan_line_ok:
  "actions_ok files \<Longrightarrow> scan_line E includes l files = Inr files1 \<Longrightarrow> actions_ok files1"
  by (auto simp: scan_line_def Let_def scan_includes_ok split: option.splits if_splits sum.splits)

lemma scan_lines_ok:
  "actions_ok files \<Longrightarrow> scan_lines E includes ls files = Inr files1 \<Longrightarrow> actions_ok files1"
proof (induction ls arbitrary: files)
  case Nil
  then show ?case by simp
next
  case (Cons l ls)
  from Cons.prems(2) obtain f2 where
    s: "scan_line E includes l files = Inr f2" and r: "scan_lines E includes ls f2 = Inr files1"
    by (auto split: sum.splits)
  from scan_line_ok[OF Cons.prems(1) s] r show ?case by (rule Cons.IH)
qed

text \<open>The outcome of the scan of the sample log.\<close>

lemma demo_scan_lines:
  "scan_lines demo_env [''*.csv''] (open_lines demo_log) []
     = Inr [(''../../../tmp/in.csv'', [''input'', ''output''])]"
  by (simp add: open_lines_def demo_log_def sublist_code strip_def is_space_def
      scan_line_def matched_path_def match_at_def group1_def relpath_def record_action_def
      demo_env_def demo_files_def suffix_def)

lemma demo_readlines: "file_readlines demo_env ''/tmp/t/strace.out.txt'' = Inr demo_log"
  by (simp add: demo_env_def)

text \<open>C5 on the sample log with the pattern \<^verbatim>\<open>*.txt\<close>, which no opened path matches.\<close>

theorem extract_files_no_match_witness:
  "extract_files demo_env ''/tmp/t/strace.out.txt'' [''*.txt''] demo_world =
     (Some (Inr []),
      emit (Print [PStr ''No input or output files found that match pattern'']) demo_world)"
proof -
  have "\<forall>l\<in>set demo_log. sublist ''open('' l \<longrightarrow>
           (\<forall>m. matched_path (strip l) = Some m \<and> os_exists demo_env m \<and> os_isfile demo_env m
             \<longrightarrow> (\<forall>i\<in>set [''*.txt'']. \<not> fnmatch_fnmatch demo_env (os_relpath demo_env m ''.'') i))"
    by (simp add: demo_env_def)
  from extract_files_no_match [OF demo_readlines this] show ?thesis .
qed

section \<open>The table of actions that \<^verbatim>\<open>extract_files\<close> builds and returns\<close>

text \<open>
  One line of the log never raises: it records its action for its path when it counts
  for one, and changes nothing otherwise.
\<close>

lemma scan_line_eq:
  "scan_line E includes l files =
     Inr (case matched_path l of
            None \<Rightarrow> files
          | Some m \<Rightarrow>
              if os_exists E m \<and> os_isfile E m
                 \<and> (\<exists>i\<in>set includes. fnmatch_fnmatch E (os_relpath E m ''.'') i)
              then record_action files (os_relpath E m ''.'') (trace_action l)
              else files)"
proof (cases "matched_path l")
  case None
  then show ?thesis by (simp add: scan_line_def)
next
  case (Some m)
  have ne: "m \<noteq> []" using Some by (rule matched_path_nonempty)
  show ?thesis
  proof (cases "os_exists E m \<and> os_isfile E m")
    case False
    with Some show ?thesis by (auto simp: scan_line_def)
  next
    case True
    show ?thesis
    proof (cases "\<exists>i\<in>set includes. fnmatch_fnmatch E (os_relpath E m ''.'') i")
      case yes: True
      then have "scan_includes E (os_relpath E m ''.'') (trace_action l) includes files
                 = record_action files (os_relpath E m ''.'') (trace_action l)"
        by (rule scan_includes_match)
      with Some True yes ne show ?thesis
        by (simp add: scan_line_def relpath_def trace_action_def)
    next
      case no: False
      then have "scan_includes E (os_relpath E m ''.'') (trace_action l) includes files = files"
        by (intro scan_includes_no_match) simp
      with Some True no ne show ?thesis
        by (simp add: scan_line_def relpath_def trace_action_def)
    qed
  qed
qed

lemma acts_of_record_action:
  "acts_of (record_action files mf a) k =
     (if k = mf \<and> a \<notin> set (acts_of files mf) then acts_of files mf @ [a] else acts_of files k)"
proof (cases "k = mf")
  case True
  then show ?thesis
    by (simp add: acts_of_def map_of_record_action_same split: option.splits)
next
  case False
  then show ?thesis by (simp add: acts_of_def map_of_record_action_other)
qed

lemma scan_line_acts:
  assumes "scan_line E includes l files = Inr files1"
  shows "acts_of files1 k =
     (if qualifies E includes l k \<and> trace_action l \<notin> set (acts_of files k)
      then acts_of files k @ [trace_action l] else acts_of files k)"
proof (cases "matched_path l")
  case None
  with assms show ?thesis by (simp add: scan_line_eq qualifies_def)
next
  case (Some m)
  show ?thesis
  proof (cases "os_exists E m \<and> os_isfile E m
                 \<and> (\<exists>i\<in>set includes. fnmatch_fnmatch E (os_relpath E m ''.'') i)")
    case True
    with Some assms have f1: "files1 = record_action files (os_relpath E m ''.'') (trace_action l)"
      by (simp add: scan_line_eq)
    have q: "qualifies E includes l k \<longleftrightarrow> k = os_relpath E m ''.''"
      using Some True by (auto simp: qualifies_def)
    show ?thesis unfolding f1 acts_of_record_action q by auto
  next
    case False
    with Some assms have f1: "files1 = files" by (auto simp: scan_line_eq)
    have "\<not> qualifies E includes l k"
      using Some False by (auto simp: qualifies_def)
    with f1 show ?thesis by simp
  qed
qed

lemma scan_line_known:
  assumes "scan_line E includes l files = Inr files1"
    and "qualifies E includes l k" and "trace_action l \<in> set (acts_of files k)"
  shows "files1 = files"
proof -
  from assms(2) obtain m where m: "matched_path l = Some m" "os_exists E m" "os_isfile E m"
    "os_relpath E m ''.'' = k" "\<exists>i\<in>set includes. fnmatch_fnmatch E k i"
    by (auto simp: qualifies_def split: option.splits)
  from assms(3) obtain acts where "map_of files k = Some acts" "trace_action l \<in> set acts"
    by (cases "map_of files k") (auto simp: acts_of_def)
  then have "record_action files k (trace_action l) = files" by (rule record_action_known)
  with assms(1) m show ?thesis by (simp add: scan_line_eq)
qed

lemma scan_line_total: "\<exists>f1. scan_line E includes l files = Inr f1"
  by (simp only: scan_line_eq) blast

text \<open>The scan of a whole log, line after line.\<close>

lemma scan_lines_total: "\<exists>fs. scan_lines E includes ls files = Inr fs"
proof (induction ls arbitrary: files)
  case Nil
  show ?case by simp
next
  case (Cons l ls)
  obtain f1 where s: "scan_line E includes l files = Inr f1"
    using scan_line_total by blast
  from Cons[of f1] obtain fs where "scan_lines E includes ls f1 = Inr fs" by blast
  with s have "scan_lines E includes (l # ls) files = Inr fs" by simp
  then show ?case by blast
qed

lemma scan_lines_snoc:
  "scan_lines E includes (ls @ [l]) files =
     (case scan_lines E includes ls files of
        Inl e \<Rightarrow> Inl e
      | Inr fs \<Rightarrow> scan_line E includes l fs)"
proof (induction ls arbitrary: files)
  case Nil
  obtain f1 where s: "scan_line E includes l files = Inr f1"
    using scan_line_total by blast
  then show ?case by simp
next
  case (Cons a ls)
  obtain f1 where s: "scan_line E includes a files = Inr f1"
    using scan_line_total by blast
  with Cons[of f1] show ?case by simp
qed

lemma scan_lines_acts:
  assumes "scan_lines E includes ls files = Inr fs"
  shows "set (acts_of fs k) =
           set (acts_of files k) \<union> {trace_action l |l. l \<in> set ls \<and> qualifies E includes l k}"
  using assms
proof (induction ls arbitrary: files)
  case Nil
  then show ?case by simp
next
  case (Cons a ls)
  obtain f1 where s: "scan_line E includes a files = Inr f1"
    using scan_line_total by blast
  with Cons.prems have r: "scan_lines E includes ls f1 = Inr fs" by simp
  have 1: "set (acts_of f1 k) =
          set (acts_of files k) \<union> (if qualifies E includes a k then {trace_action a} else {})"
    by (simp only: scan_line_acts[OF s]) auto
  have 2: "{trace_action l |l. l \<in> set (a # ls) \<and> qualifies E includes l k}
         = (if qualifies E includes a k then {trace_action a} else {})
           \<union> {trace_action l |l. l \<in> set ls \<and> qualifies E includes l k}"
    by (cases "qualifies E includes a k") auto
  show ?case
    unfolding Cons.IH[OF r] 1 2 by (simp only: Un_assoc)
qed

lemma actions_ok_acts_of:
  assumes "actions_ok fs"
  shows "distinct (acts_of fs k) \<and> set (acts_of fs k) \<subseteq> {''input'', ''output''}"
proof (cases "map_of fs k")
  case None
  then show ?thesis by (simp add: acts_of_def)
next
  case (Some acts)
  with assms have "distinct acts \<and> acts \<noteq> [] \<and> set acts \<subseteq> {''input'', ''output''}"
    unfolding actions_ok_def by blast
  moreover have "acts_of fs k = acts" using Some by (simp add: acts_of_def)
  ultimately show ?thesis by (simp only:)
qed

text \<open>
  Every record built after the curation carries the list of actions that the table holds
  for its file.
\<close>

lemma build_records_Cons:
  assumes "build_records E files prefs ts (f # filenames) result w = (Inr out, w')"
  shows "\<exists>acts rec w1. map_of files f = Some acts
          \<and> dict_get rec ''actions'' = Some (PList (map PStr acts))
          \<and> dict_get rec ''localfullpath'' = Some (PStr (os_abspath E f))
          \<and> build_records E files prefs ts filenames (result @ [rec]) w1 = (Inr out, w')"
proof -
  from assms obtain target where t: "dict_item prefs (dirname f) = Inr target"
    by (cases "dict_item prefs (dirname f)") simp_all
  let ?rp = "if target = PStr ''.'' then Inr (basename f)
            else (case target of PStr t \<Rightarrow> Inr (path_join t (basename f)) | _ \<Rightarrow> Inl TypeError)"
  from assms t obtain relativepath where rp: "?rp = Inr relativepath"
    by (cases ?rp) simp_all
  from assms t rp obtain acts where a: "map_of files f = Some acts"
    by (cases "map_of files f") simp_all
  let ?w1 = "w\<lparr>uuid_calls := Suc (uuid_calls w)\<rparr>"
  from assms t rp a obtain content where c: "file_read512 E f = Inr content"
    by (cases "file_read512 E f") (simp_all add: str_uuid1_def)
  from assms t rp a c obtain digest where d: "compute_sha256 E f = Inr digest"
    by (cases "compute_sha256 E f") (simp_all add: str_uuid1_def)
  from assms t rp a c d obtain localrel where l: "relpath E f ''.'' = Inr localrel"
    by (cases "relpath E f ''.''") (simp_all add: str_uuid1_def)
  let ?rec = "[(''relativepath'', PStr relativepath),
               (''type'', PStr ''run-output''),
               (''actions'', PList (map PStr acts)),
               (''uuid'', PStr (uuid_uuid1 E (uuid_calls w))),
               (''mimetypes'', opt_str (guess_type E f)),
               (''content'', PStr content),
               (''sha256'', PStr digest),
               (''ts'', PStr ts),
               (''localrelativepath'', PStr localrel),
               (''localfullpath'', PStr (os_abspath E f))]"
  have rec: "build_records E files prefs ts filenames (result @ [?rec]) ?w1 = (Inr out, w')"
    using assms t rp a c d l by (simp add: str_uuid1_def)
  have "dict_get ?rec ''actions'' = Some (PList (map PStr acts))"
    and "dict_get ?rec ''localfullpath'' = Some (PStr (os_abspath E f))"
    by (simp_all add: dict_get_def)
  with a rec show ?thesis by blast
qed

lemma build_records_actions:
  assumes "build_records E files prefs ts filenames result w = (Inr out, w')"
  shows "\<exists>new. out = result @ new
          \<and> (\<forall>rec\<in>set new. \<exists>f acts. map_of files f = Some acts
                \<and> dict_get rec ''actions'' = Some (PList (map PStr acts))
                \<and> dict_get rec ''localfullpath'' = Some (PStr (os_abspath E f)))"
  using assms
proof (induction filenames arbitrary: result w)
  case Nil
  then show ?case by simp
next
  case (Cons f filenames)
  from build_records_Cons[OF Cons.prems] obtain acts rec w1 where
    a: "map_of files f = Some acts"
       "dict_get rec ''actions'' = Some (PList (map PStr acts))"
       "dict_get rec ''localfullpath'' = Some (PStr (os_abspath E f))"
    and r: "build_records E files prefs ts filenames (result @ [rec]) w1 = (Inr out, w')"
    by blast
  from Cons.IH[OF r] obtain new where
    n: "out = (result @ [rec]) @ new"
       "\<forall>rec\<in>set new. \<exists>f acts. map_of files f = Some acts
                \<and> dict_get rec ''actions'' = Some (PList (map PStr acts))
                \<and> dict_get rec ''localfullpath'' = Some (PStr (os_abspath E f))"
    by blast
  have "out = result @ (rec # new)" using n(1) by simp
  moreover have "\<forall>r\<in>set (rec # new). \<exists>f acts. map_of files f = Some acts
                \<and> dict_get r ''actions'' = Some (PList (map PStr acts))
                \<and> dict_get r ''localfullpath'' = Some (PStr (os_abspath E f))"
    using a n(2) by auto
  ultimately show ?case by blast
qed

lemma place_files_actions:
  assumes "place_files E files filenames selected w = (Some (Inr out), w')"
  shows "\<forall>rec\<in>set out. \<exists>f acts. map_of files f = Some acts
                \<and> dict_get rec ''actions'' = Some (PList (map PStr acts))
                \<and> dict_get rec ''localfullpath'' = Some (PStr (os_abspath E f))"
proof -
  from assms obtain n where n: "py_len selected = Inr n"
    by (cases "py_len selected") (simp_all add: place_files_def)
  show ?thesis
  proof (cases "n = 0")
    case True
    with assms n have "out = []" by (simp add: place_files_def Let_def)
    then show ?thesis by simp
  next
    case False
    from assms n False obtain filenames1 where
      s: "select_files selected filenames = Inr filenames1"
      by (cases "select_files selected filenames") (simp_all add: place_files_def Let_def)
    let ?w2 = "emit (Input ''(press ENTER)'')
                (emit (Print [PStr ''Please make sure you do not delete any rows or edit the keys.''])
                  (emit (Print [PStr ''Please select target locations for the various directories we found''])
                    (emit (Print [PStr ''You selected'', PInt (int n), PStr ''file(s)'']) w)))"
    obtain c w3 where c: "confirm_prefixes (initial_prefixes filenames1 []) (editor_replies ?w2) ?w2
                            = (c, w3)"
      by (cases "confirm_prefixes (initial_prefixes filenames1 []) (editor_replies ?w2) ?w2")
    from assms n False s c obtain revised where r: "c = Some (Inr revised)"
      by (cases c; cases "the c") (auto simp: place_files_def Let_def)
    let ?prefs1 = "case dict_get revised ''.'' of
                         Some v \<Rightarrow> dict_set revised [] v
                       | None \<Rightarrow> revised"
    let ?w4 = "w3\<lparr>clock_calls := Suc (clock_calls w3)\<rparr>"
    obtain b w5 where b: "build_records E files ?prefs1 (datetime_now E (clock_calls w3))
                            filenames1 [] ?w4 = (b, w5)"
      by (cases "build_records E files ?prefs1 (datetime_now E (clock_calls w3)) filenames1 [] ?w4")
    from assms n False s c r b have "b = Inr out"
      by (cases b) (auto simp: place_files_def Let_def now_isoformat_def)
    with b build_records_actions[of E files ?prefs1 _ filenames1 "[]" ?w4 out w5]
    show ?thesis by auto
  qed
qed

text \<open>
  Claim C4. Let the trace log be readable. The scan inside \<^verbatim>\<open>extract_files\<close> runs to
  the end and yields a table in which, for every path, the list of actions is free of
  duplicates and holds exactly the actions of the lines that count for the path: the
  lines that refer to an open, whose extracted path exists, is a regular file, and
  matches at least one pattern; the action of a line is \<^verbatim>\<open>input\<close> when the line holds
  \<^verbatim>\<open>O_RDONLY\<close> and \<^verbatim>\<open>output\<close> otherwise. \<^verbatim>\<open>extract_files\<close> goes on with this
  table: with an empty table it returns at once, otherwise it shows the sorted paths of
  the table to the operator, and every record it returns carries as \<^verbatim>\<open>actions\<close> the
  list that the table holds for its file. Line by line: a further line that counts for
  a path leaves the whole table unchanged when its action is already recorded for the
  path, and otherwise puts its action behind the ones recorded; the other paths keep
  their lists.
\<close>

theorem extract_files_actions:
  assumes "file_readlines E filename = Inr lines"
  shows "\<exists>files.
      scan_lines E includes (open_lines lines) [] = Inr files
    \<and> (\<forall>k. distinct (acts_of files k)
          \<and> set (acts_of files k) =
              {trace_action l |l. l \<in> set (open_lines lines) \<and> qualifies E includes l k})
    \<and> (files = [] \<longrightarrow>
          extract_files E filename includes w =
            (Some (Inr []),
             emit (Print [PStr ''No input or output files found that match pattern'']) w))
    \<and> (files \<noteq> [] \<longrightarrow>
          extract_files E filename includes w =
            (case edit_roundtrip (PList (map PStr (sort (map fst files))))
                    (emit (Print [PStr ''Please select files to keep (press ENTER)''])
                      (emit (Print [PStr ''We captured files that matched the pattern you specified.'']) w)) of
               (None, w2) \<Rightarrow> (None, w2)
             | (Some YamlFails, w2) \<Rightarrow> (Some (Inl YAMLError), w2)
             | (Some (YamlValue selected), w2) \<Rightarrow>
                 place_files E files (sort (map fst files)) selected w2))
    \<and> (\<forall>result w'. extract_files E filename includes w = (Some (Inr result), w') \<longrightarrow>
          (\<forall>rec\<in>set result. \<exists>f. acts_of files f \<noteq> []
              \<and> dict_get rec ''actions'' = Some (PList (map PStr (acts_of files f)))
              \<and> dict_get rec ''localfullpath'' = Some (PStr (os_abspath E f))))
    \<and> (\<forall>ls l fs k. scan_lines E includes ls [] = Inr fs \<and> qualifies E includes l k \<longrightarrow>
          (\<exists>fs1. scan_lines E includes (ls @ [l]) [] = Inr fs1
             \<and> acts_of fs1 k = (if trace_action l \<in> set (acts_of fs k) then acts_of fs k
                                 else acts_of fs k @ [trace_action l])
             \<and> (trace_action l \<in> set (acts_of fs k) \<longrightarrow> fs1 = fs)
             \<and> (\<forall>k'. k' \<noteq> k \<longrightarrow> acts_of fs1 k' = acts_of fs k')))"
proof -
  obtain files where scan: "scan_lines E includes (open_lines lines) [] = Inr files"
    using scan_lines_total by blast
  have ok0: "actions_ok []" by (simp add: actions_ok_def)
  have ok: "actions_ok files" using ok0 scan by (rule scan_lines_ok)
  have nil: "acts_of [] k = []" for k by (simp add: acts_of_def)
  have tab: "distinct (acts_of files k)
          \<and> set (acts_of files k) =
              {trace_action l |l. l \<in> set (open_lines lines) \<and> qualifies E includes l k}" for k
    using actions_ok_acts_of[OF ok, of k] scan_lines_acts[OF scan, of k]
    by (simp only: nil list.set Un_empty_left)
  have empty: "extract_files E filename includes w =
            (Some (Inr []),
             emit (Print [PStr ''No input or output files found that match pattern'']) w)"
    if "files = []"
    using that assms scan by (simp add: extract_files_def)
  have curate: "extract_files E filename includes w =
            (case edit_roundtrip (PList (map PStr (sort (map fst files))))
                    (emit (Print [PStr ''Please select files to keep (press ENTER)''])
                      (emit (Print [PStr ''We captured files that matched the pattern you specified.'']) w)) of
               (None, w2) \<Rightarrow> (None, w2)
             | (Some YamlFails, w2) \<Rightarrow> (Some (Inl YAMLError), w2)
             | (Some (YamlValue selected), w2) \<Rightarrow>
                 place_files E files (sort (map fst files)) selected w2)"
    if "files \<noteq> []"
    using that assms scan by (simp add: extract_files_def Let_def)
  have recs: "\<forall>rec\<in>set result. \<exists>f. acts_of files f \<noteq> []
              \<and> dict_get rec ''actions'' = Some (PList (map PStr (acts_of files f)))
              \<and> dict_get rec ''localfullpath'' = Some (PStr (os_abspath E f))"
    if run: "extract_files E filename includes w = (Some (Inr result), w')" for result w'
  proof (cases "files = []")
    case True
    with empty run have "result = []" by simp
    then show ?thesis by simp
  next
    case False
    let ?w1 = "emit (Print [PStr ''Please select files to keep (press ENTER)''])
                (emit (Print [PStr ''We captured files that matched the pattern you specified.'']) w)"
    obtain rep w2 where e: "edit_roundtrip (PList (map PStr (sort (map fst files)))) ?w1 = (rep, w2)"
      by (cases "edit_roundtrip (PList (map PStr (sort (map fst files)))) ?w1")
    from run curate[OF False] e obtain selected where
      p: "place_files E files (sort (map fst files)) selected w2 = (Some (Inr result), w')"
      by (cases rep; cases "the rep") auto
    show ?thesis
    proof
      fix rec assume "rec \<in> set result"
      with place_files_actions[OF p] obtain f acts where
        f: "map_of files f = Some acts" "dict_get rec ''actions'' = Some (PList (map PStr acts))"
           "dict_get rec ''localfullpath'' = Some (PStr (os_abspath E f))"
        by blast
      from f(1) ok have "acts \<noteq> []" unfolding actions_ok_def by blast
      moreover have "acts_of files f = acts" using f(1) by (simp add: acts_of_def)
      ultimately show "\<exists>f. acts_of files f \<noteq> []
              \<and> dict_get rec ''actions'' = Some (PList (map PStr (acts_of files f)))
              \<and> dict_get rec ''localfullpath'' = Some (PStr (os_abspath E f))"
        using f(2,3) by auto
    qed
  qed
  have step: "\<exists>fs1. scan_lines E includes (ls @ [l]) [] = Inr fs1
             \<and> acts_of fs1 k = (if trace_action l \<in> set (acts_of fs k) then acts_of fs k
                                 else acts_of fs k @ [trace_action l])
             \<and> (trace_action l \<in> set (acts_of fs k) \<longrightarrow> fs1 = fs)
             \<and> (\<forall>k'. k' \<noteq> k \<longrightarrow> acts_of fs1 k' = acts_of fs k')"
    if h: "scan_lines E includes ls [] = Inr fs \<and> qualifies E includes l k" for ls l fs k
  proof -
    obtain fs1 where s: "scan_line E includes l fs = Inr fs1"
      using scan_line_total by blast
    have sn: "scan_lines E includes (ls @ [l]) [] = Inr fs1"
      using h s by (simp add: scan_lines_snoc)
    have a: "acts_of fs1 k = (if trace_action l \<in> set (acts_of fs k) then acts_of fs k
                                 else acts_of fs k @ [trace_action l])"
      using scan_line_acts[OF s, of k] h by simp
    have b: "fs1 = fs" if "trace_action l \<in> set (acts_of fs k)"
    proof -
      from h have q: "qualifies E includes l k" by simp
      from s q that show ?thesis by (rule scan_line_known)
    qed
    have c: "acts_of fs1 k' = acts_of fs k'" if "k' \<noteq> k" for k'
    proof -
      have "\<not> qualifies E includes l k'"
        using h that by (auto simp: qualifies_def split: option.splits)
      with scan_line_acts[OF s, of k'] show ?thesis by simp
    qed
    show ?thesis
    proof (intro exI[of _ fs1] conjI)
      show "scan_lines E includes (ls @ [l]) [] = Inr fs1" by (rule sn)
      show "acts_of fs1 k = (if trace_action l \<in> set (acts_of fs k) then acts_of fs k
                                 else acts_of fs k @ [trace_action l])" by (rule a)
      show "trace_action l \<in> set (acts_of fs k) \<longrightarrow> fs1 = fs" using b by blast
      show "\<forall>k'. k' \<noteq> k \<longrightarrow> acts_of fs1 k' = acts_of fs k'" using c by blast
    qed
  qed
  show ?thesis
  proof (intro exI[of _ files] conjI)
    show "scan_lines E includes (open_lines lines) [] = Inr files" by (rule scan)
    show "\<forall>k. distinct (acts_of files k)
          \<and> set (acts_of files k) =
              {trace_action l |l. l \<in> set (open_lines lines) \<and> qualifies E includes l k}"
      by (intro allI) (rule tab)
    show "files = [] \<longrightarrow>
          extract_files E filename includes w =
            (Some (Inr []),
             emit (Print [PStr ''No input or output files found that match pattern'']) w)"
      by (intro impI) (rule empty)
    show "files \<noteq> [] \<longrightarrow>
          extract_files E filename includes w =
            (case edit_roundtrip (PList (map PStr (sort (map fst files))))
                    (emit (Print [PStr ''Please select files to keep (press ENTER)''])
                      (emit (Print [PStr ''We captured files that matched the pattern you specified.'']) w)) of
               (None, w2) \<Rightarrow> (None, w2)
             | (Some YamlFails, w2) \<Rightarrow> (Some (Inl YAMLError), w2)
             | (Some (YamlValue selected), w2) \<Rightarrow>
                 place_files E files (sort (map fst files)) selected w2)"
      by (intro impI) (rule curate)
    show "\<forall>result w'. extract_files E filename includes w = (Some (Inr result), w') \<longrightarrow>
          (\<forall>rec\<in>set result. \<exists>f. acts_of files f \<noteq> []
              \<and> dict_get rec ''actions'' = Some (PList (map PStr (acts_of files f)))
              \<and> dict_get rec ''localfullpath'' = Some (PStr (os_abspath E f)))"
      by (intro allI impI) (rule recs)
    show "\<forall>ls l fs k. scan_lines E includes ls [] = Inr fs \<and> qualifies E includes l k \<longrightarrow>
          (\<exists>fs1. scan_lines E includes (ls @ [l]) [] = Inr fs1
             \<and> acts_of fs1 k = (if trace_action l \<in> set (acts_of fs k) then acts_of fs k
                                 else acts_of fs k @ [trace_action l])
             \<and> (trace_action l \<in> set (acts_of fs k) \<longrightarrow> fs1 = fs)
             \<and> (\<forall>k'. k' \<noteq> k \<longrightarrow> acts_of fs1 k' = acts_of fs k'))"
      by (intro allI impI) (rule step)
  qed
qed

text \<open>The sample log and the sample operator: one record comes back.\<close>

lemma demo_place_files:
  assumes "editor_replies w = [YamlValue (PDict [(''../../../tmp'', PStr ''inputs'')])]"
    and "uuid_calls w = 0" and "clock_calls w = 0"
  shows "fst (place_files demo_env [(''../../../tmp/in.csv'', [''input'', ''output''])]
          [''../../../tmp/in.csv''] (PList [PStr ''../../../tmp/in.csv'']) w)
   = Some (Inr [demo_run_output])"
  using assms
  by (simp add: place_files_def py_len_def select_files_def dirname_def basename_def
      path_join_def suffix_def emit_def dict_set_def dict_get_def dict_item_def
      now_isoformat_def str_uuid1_def relpath_def opt_str_def demo_env_def Let_def
      demo_run_output_def)

text \<open>
  C4 on the sample log, in which \<^verbatim>\<open>/tmp/in.csv\<close> is read twice and then written: the
  table holds \<^verbatim>\<open>[input, output]\<close> for it, and so does the record that
  \<^verbatim>\<open>extract_files\<close> returns.
\<close>

theorem extract_files_actions_witness:
  "fst (extract_files demo_env ''/tmp/t/strace.out.txt'' [''*.csv''] demo_curated_world)
     = Some (Inr [demo_run_output])
   \<and> dict_get demo_run_output ''actions'' = Some (PList [PStr ''input'', PStr ''output''])
   \<and> scan_lines demo_env [''*.csv''] (open_lines demo_log) []
     = Inr [(''../../../tmp/in.csv'', [''input'', ''output''])]"
proof -
  let ?tab = "[(''../../../tmp/in.csv'', [''input'', ''output''])]"
  let ?w1 = "emit (Print [PStr ''Please select files to keep (press ENTER)''])
              (emit (Print [PStr ''We captured files that matched the pattern you specified.''])
                demo_curated_world)"
  from extract_files_actions [OF demo_readlines, of "[''*.csv'']" demo_curated_world]
  obtain files where
    scan: "scan_lines demo_env [''*.csv''] (open_lines demo_log) [] = Inr files"
    and cur: "files \<noteq> [] \<longrightarrow>
          extract_files demo_env ''/tmp/t/strace.out.txt'' [''*.csv''] demo_curated_world =
            (case edit_roundtrip (PList (map PStr (sort (map fst files)))) ?w1 of
               (None, w2) \<Rightarrow> (None, w2)
             | (Some YamlFails, w2) \<Rightarrow> (Some (Inl YAMLError), w2)
             | (Some (YamlValue selected), w2) \<Rightarrow>
                 place_files demo_env files (sort (map fst files)) selected w2)"
    by (elim exE conjE)
  from scan demo_scan_lines have f: "files = ?tab" by simp
  let ?w2 = "emit (Edit (PList [PStr ''../../../tmp/in.csv'']))
               (?w1\<lparr>editor_replies := [YamlValue (PDict [(''../../../tmp'', PStr ''inputs'')])]\<rparr>)"
  have "extract_files demo_env ''/tmp/t/strace.out.txt'' [''*.csv''] demo_curated_world
          = place_files demo_env ?tab [''../../../tmp/in.csv'']
              (PList [PStr ''../../../tmp/in.csv'']) ?w2"
    using cur unfolding f
    by (simp add: edit_roundtrip_def demo_curated_world_def emit_def)
  moreover have "fst (place_files demo_env ?tab [''../../../tmp/in.csv'']
              (PList [PStr ''../../../tmp/in.csv'']) ?w2) = Some (Inr [demo_run_output])"
    by (rule demo_place_files)
       (simp_all add: emit_def demo_curated_world_def demo_world_def)
  moreover have "dict_get demo_run_output ''actions'' = Some (PList [PStr ''input'', PStr ''output''])"
    by (simp add: demo_run_output_def dict_get_def)
  ultimately show ?thesis using demo_scan_lines by simp
qed

end
